theory Spec2Isabelle
  imports Complex_Main "HOL-Library.AList"
begin

section \<open>JavaScript values\<close>

text \<open>
  The values a cell of a fetched row can hold, and the values the sanitizers of
  \<^verbatim>\<open>src/index.js\<close> return. A number is an IEEE double: its finite values are
  embedded by their exact rational value (the two zeros are one value), the three
  others are constructors. A Date object is its time value in milliseconds, \<open>None\<close>
  for an Invalid Date. A Buffer (a BLOB cell) is its bytes. Strings are byte strings;
  the character classes below are the ASCII part of the ECMAScript ones.
\<close>

datatype jsnum = NaN | PosInf | NegInf | Finite rat

datatype jsval =
    JNull
  | JUndefined
  | JBool bool
  | JNum jsnum
  | JStr string
  | JDate "int option"
  | JBuf string

text \<open>
  The built-ins of the engine that the program calls and whose algorithm is not part
  of the repository: \<^verbatim>\<open>Number(string)\<close>, \<^verbatim>\<open>String(number)\<close>, the string parser behind
  \<^verbatim>\<open>new Date(string)\<close> (\<open>None\<close>: the time value is NaN) and \<^verbatim>\<open>String(date)\<close>.
\<close>

record builtins =
  js_Number :: "string \<Rightarrow> jsnum"
  js_String :: "jsnum \<Rightarrow> string"
  js_DateParse :: "string \<Rightarrow> int option"
  js_DateString :: "int option \<Rightarrow> string"

subsection \<open>Numbers\<close>

text \<open>\<^verbatim>\<open>Number.isFinite\<close>, \<^verbatim>\<open>Math.trunc\<close>, and the comparisons of a number with a finite constant.\<close>

fun isFinite :: "jsnum \<Rightarrow> bool" where
  "isFinite (Finite r) = True"
| "isFinite n = False"

definition trunc_rat :: "rat \<Rightarrow> int" where
  "trunc_rat r = (if 0 \<le> r then \<lfloor>r\<rfloor> else \<lceil>r\<rceil>)"

fun math_trunc :: "jsnum \<Rightarrow> jsnum" where
  "math_trunc (Finite r) = Finite (of_int (trunc_rat r))"
| "math_trunc n = n"

fun num_ge :: "jsnum \<Rightarrow> rat \<Rightarrow> bool" where
  "num_ge (Finite r) c = (c \<le> r)"
| "num_ge PosInf c = True"
| "num_ge n c = False"

fun num_lt :: "jsnum \<Rightarrow> rat \<Rightarrow> bool" where
  "num_lt (Finite r) c = (r < c)"
| "num_lt NegInf c = True"
| "num_lt n c = False"

text \<open>\<^verbatim>\<open>val * 1000\<close>; the product of a finite value is taken exactly.\<close>

fun times1000 :: "jsnum \<Rightarrow> jsnum" where
  "times1000 (Finite r) = Finite (r * 1000)"
| "times1000 n = n"

subsection \<open>Strings\<close>

definition isDigit :: "char \<Rightarrow> bool" where
  "isDigit c = ((48::nat) \<le> of_char c \<and> of_char c \<le> (57::nat))"

definition isSpace :: "char \<Rightarrow> bool" where
  "isSpace c = (of_char c \<in> {9, 10, 11, 12, 13, 32::nat})"

definition trim :: "string \<Rightarrow> string" where
  "trim s = rev (dropWhile isSpace (rev (dropWhile isSpace s)))"

definition lowerChar :: "char \<Rightarrow> char" where
  "lowerChar c = (if (65::nat) \<le> of_char c \<and> of_char c \<le> (90::nat) then char_of ((of_char c :: nat) + 32) else c)"

definition upperChar :: "char \<Rightarrow> char" where
  "upperChar c = (if (97::nat) \<le> of_char c \<and> of_char c \<le> (122::nat) then char_of ((of_char c :: nat) - 32) else c)"

definition toLowerCase :: "string \<Rightarrow> string" where
  "toLowerCase s = map lowerChar s"

definition toUpperCase :: "string \<Rightarrow> string" where
  "toUpperCase s = map upperChar s"

section \<open>Row Sanitizer\<close>

text \<open>\<^verbatim>\<open>isAllDigitsStr\<close>, on a string argument (the only call passes one).\<close>

fun allDigits :: "string \<Rightarrow> bool" where
  "allDigits [] = True"
| "allDigits (c # cs) = (if \<not> isDigit c then False else allDigits cs)"

definition isAllDigitsStr :: "string \<Rightarrow> bool" where
  "isAllDigitsStr str = (if length str = 0 then False else allDigits str)"

text \<open>
  The time value of \<^verbatim>\<open>new Date(n)\<close> for a number (TimeClip) and of
  \<^verbatim>\<open>new Date(v)\<close> for the other values: a string is parsed, a boolean and null are
  converted to a number, a Buffer is converted to its string first.
\<close>

fun timeClip :: "jsnum \<Rightarrow> int option" where
  "timeClip (Finite r) = (if \<bar>r\<bar> \<le> 8640000000000000 then Some (trunc_rat r) else None)"
| "timeClip n = None"

fun newDate :: "builtins \<Rightarrow> jsval \<Rightarrow> int option" where
  "newDate B (JNum n) = timeClip n"
| "newDate B (JStr s) = js_DateParse B s"
| "newDate B (JBuf b) = js_DateParse B b"
| "newDate B (JBool b) = Some (if b then 1 else 0)"
| "newDate B JNull = Some 0"
| "newDate B JUndefined = None"
| "newDate B (JDate t) = t"

text \<open>The three early returns of \<^verbatim>\<open>toJsDate\<close> inside \<^verbatim>\<open>if (typeof val === 'number')\<close>.\<close>

definition epochDate :: "jsnum \<Rightarrow> jsval option" where
  "epochDate n =
     (if n = Finite 0 then Some JNull
      else if num_ge n 1000000000000 then Some (JDate (timeClip n))
      else if num_ge n 1000000000 \<and> num_lt n 5000000000000 then Some (JDate (timeClip (times1000 n)))
      else None)"

definition parsedDate :: "builtins \<Rightarrow> jsval \<Rightarrow> jsval" where
  "parsedDate B v = (case newDate B v of None \<Rightarrow> JNull | Some t \<Rightarrow> JDate (Some t))"

definition digitsToNumber :: "builtins \<Rightarrow> jsval \<Rightarrow> jsval" where
  "digitsToNumber B v =
     (case v of JStr s \<Rightarrow> if isAllDigitsStr s then JNum (js_Number B s) else v | _ \<Rightarrow> v)"

definition toJsDate :: "builtins \<Rightarrow> jsval \<Rightarrow> jsval" where
  "toJsDate B v =
     (if v = JNull \<or> v = JUndefined \<or> v = JStr [] then JNull
      else case v of
        JDate t \<Rightarrow> v
      | _ \<Rightarrow>
         (let val = digitsToNumber B v in
          case val of
            JNum n \<Rightarrow> (case epochDate n of Some r \<Rightarrow> r | None \<Rightarrow> parsedDate B val)
          | _ \<Rightarrow> parsedDate B val))"

text \<open>\<^verbatim>\<open>emptyStringToNull\<close>; the flag is \<^verbatim>\<open>TREAT_EMPTY_STRING_AS_NULL\<close>.\<close>

definition emptyStringToNull :: "bool \<Rightarrow> jsval \<Rightarrow> jsval" where
  "emptyStringToNull flag v =
     (if \<not> flag then v
      else if v = JNull \<or> v = JUndefined then v
      else case v of JStr s \<Rightarrow> if trim s = [] then JNull else v | _ \<Rightarrow> v)"

text \<open>\<^verbatim>\<open>String(val)\<close> for the values that reach it in \<^verbatim>\<open>toBoolean\<close>.\<close>

fun toStr :: "builtins \<Rightarrow> jsval \<Rightarrow> string" where
  "toStr B (JStr s) = s"
| "toStr B (JBuf b) = b"
| "toStr B (JNum n) = js_String B n"
| "toStr B (JDate t) = js_DateString B t"
| "toStr B (JBool b) = (if b then ''true'' else ''false'')"
| "toStr B JNull = ''null''"
| "toStr B JUndefined = ''undefined''"

definition toBoolean :: "builtins \<Rightarrow> bool \<Rightarrow> jsval \<Rightarrow> jsval" where
  "toBoolean B flag v0 =
     (let val = emptyStringToNull flag v0 in
      if val = JNull \<or> val = JUndefined then JNull
      else case val of
        JBool b \<Rightarrow> val
      | JNum n \<Rightarrow> JBool (n \<noteq> Finite 0)
      | _ \<Rightarrow>
         (let s = toLowerCase (trim (toStr B val)) in
          if s = ''true'' \<or> s = ''t'' \<or> s = ''yes'' \<or> s = ''y'' \<or> s = ''1'' then JBool True
          else if s = ''false'' \<or> s = ''f'' \<or> s = ''no'' \<or> s = ''n'' \<or> s = ''0'' then JBool False
          else JNull))"

definition toIntOrNull :: "builtins \<Rightarrow> bool \<Rightarrow> jsval \<Rightarrow> jsval" where
  "toIntOrNull B flag v0 =
     (let val = emptyStringToNull flag v0 in
      if val = JNull \<or> val = JUndefined then JNull
      else case val of
        JStr s \<Rightarrow> (let n = js_Number B s in if isFinite n then JNum (math_trunc n) else JNull)
      | JNum n \<Rightarrow> (if isFinite n then JNum (math_trunc n) else JNull)
      | _ \<Rightarrow> JNull)"

definition toFloatOrNull :: "builtins \<Rightarrow> bool \<Rightarrow> jsval \<Rightarrow> jsval" where
  "toFloatOrNull B flag v0 =
     (let val = emptyStringToNull flag v0 in
      if val = JNull \<or> val = JUndefined then JNull
      else case val of
        JStr s \<Rightarrow> (let n = js_Number B s in if isFinite n then JNum n else JNull)
      | JNum n \<Rightarrow> (if isFinite n then val else JNull)
      | _ \<Rightarrow> JNull)"

text \<open>
  The pattern \<^verbatim>\<open>/^-?\d+(\.\d+)?([eE][+-]?\d+)?$/\<close>. The character classes of
  consecutive pieces are disjoint, so the greedy left-to-right reading decides the
  match: \<open>exponentRe\<close> is \<^verbatim>\<open>([eE][+-]?\d+)?$\<close>, \<open>fractionRe\<close> is
  \<^verbatim>\<open>(\.\d+)?([eE][+-]?\d+)?$\<close>.
\<close>

definition exponentRe :: "string \<Rightarrow> bool" where
  "exponentRe s =
     (case s of
        [] \<Rightarrow> True
      | c # r \<Rightarrow>
          (c = CHR ''e'' \<or> c = CHR ''E'') \<and>
          (let ds = (case r of [] \<Rightarrow> [] | x # r' \<Rightarrow> if x = CHR ''+'' \<or> x = CHR ''-'' then r' else r)
           in ds \<noteq> [] \<and> allDigits ds))"

definition fractionRe :: "string \<Rightarrow> bool" where
  "fractionRe s =
     (case s of
        [] \<Rightarrow> True
      | c # r \<Rightarrow>
          if c = CHR ''.'' then takeWhile isDigit r \<noteq> [] \<and> exponentRe (dropWhile isDigit r)
          else exponentRe s)"

definition decimalRe :: "string \<Rightarrow> bool" where
  "decimalRe s =
     (let s1 = (case s of [] \<Rightarrow> [] | c # r \<Rightarrow> if c = CHR ''-'' then r else s)
      in takeWhile isDigit s1 \<noteq> [] \<and> fractionRe (dropWhile isDigit s1))"

definition toDecimalStringOrNull :: "builtins \<Rightarrow> bool \<Rightarrow> jsval \<Rightarrow> jsval" where
  "toDecimalStringOrNull B flag v0 =
     (let val = emptyStringToNull flag v0 in
      if val = JNull \<or> val = JUndefined then JNull
      else case val of
        JStr s \<Rightarrow> (if decimalRe (trim s) then JStr (trim s) else JNull)
      | JNum n \<Rightarrow> (if \<not> isFinite n then JNull else JStr (js_String B n))
      | _ \<Rightarrow> JNull)"

text \<open>
  The DestinationTypeClass, and the dispatch of \<^verbatim>\<open>copyTableData\<close> on it: a column of
  class \<open>other\<close> is not assigned.
\<close>

datatype kind = KDate | KBoolean | KInt | KFloat | KDecimal | KOther

fun sanitize :: "builtins \<Rightarrow> bool \<Rightarrow> kind \<Rightarrow> jsval \<Rightarrow> jsval" where
  "sanitize B flag KDate v = toJsDate B v"
| "sanitize B flag KBoolean v = toBoolean B flag v"
| "sanitize B flag KInt v = toIntOrNull B flag v"
| "sanitize B flag KFloat v = toFloatOrNull B flag v"
| "sanitize B flag KDecimal v = toDecimalStringOrNull B flag v"
| "sanitize B flag KOther v = v"


text \<open>
  The canonical forms of the spec, class by class: null for every class; a Date for
  \<open>date\<close>; a boolean for \<open>boolean\<close>; a finite integral number for \<open>int\<close>; a finite
  number for \<open>float\<close>; for \<open>decimal\<close> a string that matches the pattern and has no
  surrounding whitespace.
\<close>

fun canonical :: "kind \<Rightarrow> jsval \<Rightarrow> bool" where
  "canonical k JNull = True"
| "canonical KDate (JDate t) = True"
| "canonical KBoolean (JBool b) = True"
| "canonical KInt (JNum (Finite r)) = (of_int \<lfloor>r\<rfloor> = r)"
| "canonical KFloat (JNum (Finite r)) = True"
| "canonical KDecimal (JStr s) = (decimalRe s \<and> trim s = s)"
| "canonical k v = False"

text \<open>
  Decimal digits: the value of a digit string (\<^verbatim>\<open>parseInt(m[1], 10)\<close> on the digits a
  pattern captured, taken exactly) and the digits of a natural number (the
  interpolation of a number into a template string).
\<close>

definition decimalValue :: "string \<Rightarrow> nat" where
  "decimalValue s = fold (\<lambda>c n. 10 * n + (of_char c - 48)) s 0"

fun showNat :: "nat \<Rightarrow> string" where
  "showNat n = (if n < 10 then [''0123456789'' ! n] else showNat (n div 10) @ [''0123456789'' ! (n mod 10)])"

text \<open>
  One engine, for evaluating the functions at concrete inputs: its \<open>Number\<close> reads
  blank strings and digit strings, its \<open>String\<close> writes the integral part, its date
  parser knows one ISO string.
\<close>

definition exampleBuiltins :: builtins where
  "exampleBuiltins =
     \<lparr> js_Number = (\<lambda>s. let t = trim s in
          if t = [] then Finite 0 else if allDigits t then Finite (of_nat (decimalValue t)) else NaN),
       js_String = (\<lambda>n. case n of
          NaN \<Rightarrow> ''NaN'' | PosInf \<Rightarrow> ''Infinity'' | NegInf \<Rightarrow> ''-Infinity''
        | Finite r \<Rightarrow> (if r < 0 then ''-'' else []) @ showNat (nat \<lfloor>\<bar>r\<bar>\<rfloor>)),
       js_DateParse = (\<lambda>s. if s = ''1970-01-01T00:00:00.000Z'' then Some 0 else None),
       js_DateString = (\<lambda>t. case t of None \<Rightarrow> ''Invalid Date'' | Some ms \<Rightarrow> ''Date'') \<rparr>"

section \<open>Type Mapper\<close>

text \<open>\<^verbatim>\<open>String.prototype.startsWith\<close> and \<^verbatim>\<open>String.prototype.includes\<close>.\<close>

definition startsWith :: "string \<Rightarrow> string \<Rightarrow> bool" where
  "startsWith s p = (take (length p) s = p)"

fun str_includes :: "string \<Rightarrow> string \<Rightarrow> bool" where
  "str_includes [] sub = (sub = [])"
| "str_includes (c # cs) sub = (startsWith (c # cs) sub \<or> str_includes cs sub)"

text \<open>
  The PortableType: the Sequelize data types the mapper returns. \<open>STRING n\<close> is
  \<^verbatim>\<open>DataTypes.STRING(n)\<close>, \<open>DECIMAL_PS p s\<close> is \<^verbatim>\<open>DataTypes.DECIMAL(p, s)\<close>.
\<close>

datatype PortableType =
  INTEGER | STRING nat | TEXT | BLOB | DOUBLE | DECIMAL | DECIMAL_PS nat nat | DATE | BOOLEAN | UUID

text \<open>
  \<^verbatim>\<open>parseLength\<close>: the leftmost match of \<^verbatim>\<open>/\((\d+)\)/\<close>, \<open>None\<close> for \<^verbatim>\<open>undefined\<close>.
  After an opening parenthesis the digits are read greedily and a closing parenthesis
  must follow; otherwise the search goes on at the next character.
\<close>

fun parseLength :: "string \<Rightarrow> nat option" where
  "parseLength [] = None"
| "parseLength (c # cs) =
     (if c = CHR ''('' \<and> takeWhile isDigit cs \<noteq> [] \<and>
         (case dropWhile isDigit cs of [] \<Rightarrow> False | x # r \<Rightarrow> x = CHR '')'')
      then Some (decimalValue (takeWhile isDigit cs))
      else parseLength cs)"

text \<open>
  The leftmost match of \<^verbatim>\<open>/\((\d+)\s*,\s*(\d+)\)/\<close>; \<open>precisionScaleAt cs\<close> reads what
  follows an opening parenthesis.
\<close>

definition precisionScaleAt :: "string \<Rightarrow> (nat \<times> nat) option" where
  "precisionScaleAt cs =
     (let p = takeWhile isDigit cs; r1 = dropWhile isSpace (dropWhile isDigit cs) in
      case r1 of
        [] \<Rightarrow> None
      | x # r2 \<Rightarrow>
          (let r3 = dropWhile isSpace r2; s = takeWhile isDigit r3 in
           if p \<noteq> [] \<and> x = CHR '','' \<and> s \<noteq> [] \<and>
              (case dropWhile isDigit r3 of [] \<Rightarrow> False | y # r4 \<Rightarrow> y = CHR '')'')
           then Some (decimalValue p, decimalValue s) else None))"

fun precisionScale :: "string \<Rightarrow> (nat \<times> nat) option" where
  "precisionScale [] = None"
| "precisionScale (c # cs) =
     (if c = CHR ''('' \<and> precisionScaleAt cs \<noteq> None then precisionScaleAt cs
      else precisionScale cs)"

definition mapSqliteTypeToSequelize :: "string \<Rightarrow> PortableType" where
  "mapSqliteTypeToSequelize typeStrRaw =
     (let typeStr = toUpperCase (trim typeStrRaw); len = parseLength typeStr in
      if str_includes typeStr ''INT'' then INTEGER
      else if str_includes typeStr ''CHAR'' \<or> str_includes typeStr ''CLOB'' \<or> str_includes typeStr ''TEXT''
        then (case len of None \<Rightarrow> TEXT | Some n \<Rightarrow> if n \<noteq> 0 then STRING n else TEXT)
      else if str_includes typeStr ''BLOB'' then BLOB
      else if str_includes typeStr ''REAL'' \<or> str_includes typeStr ''FLOA'' \<or> str_includes typeStr ''DOUB''
        then DOUBLE
      else if str_includes typeStr ''DEC'' \<or> str_includes typeStr ''NUM''
        then (case precisionScale typeStr of Some (p, s) \<Rightarrow> DECIMAL_PS p s | None \<Rightarrow> DECIMAL)
      else if str_includes typeStr ''DATE'' \<or> str_includes typeStr ''TIME'' then DATE
      else if typeStr = ''BOOLEAN'' then BOOLEAN
      else if typeStr = ''UUID'' then UUID
      else TEXT)"

text \<open>
  The patterns the spec lists, read on the trimmed, upper-cased type string as the
  mapper reads them.
\<close>

definition listedPattern :: "string \<Rightarrow> bool" where
  "listedPattern typeStrRaw =
     (let typeStr = toUpperCase (trim typeStrRaw) in
      str_includes typeStr ''INT'' \<or>
      str_includes typeStr ''CHAR'' \<or> str_includes typeStr ''CLOB'' \<or> str_includes typeStr ''TEXT'' \<or>
      str_includes typeStr ''BLOB'' \<or>
      str_includes typeStr ''REAL'' \<or> str_includes typeStr ''FLOA'' \<or> str_includes typeStr ''DOUB'' \<or>
      str_includes typeStr ''DEC'' \<or> str_includes typeStr ''NUM'' \<or>
      str_includes typeStr ''DATE'' \<or> str_includes typeStr ''TIME'' \<or>
      typeStr = ''BOOLEAN'' \<or> typeStr = ''UUID'')"

section \<open>Destination Type Classifier\<close>

text \<open>\<^verbatim>\<open>classifyPgType\<close>, on the type string \<^verbatim>\<open>describeTable\<close> reports.\<close>

definition classifyPgType :: "string \<Rightarrow> kind" where
  "classifyPgType typeStr =
     (let t = toLowerCase typeStr in
      if str_includes t ''timestamp'' \<or> t = ''date'' \<or> startsWith t ''time'' then KDate
      else if str_includes t ''boolean'' then KBoolean
      else if str_includes t ''double'' \<or> str_includes t ''real'' \<or> str_includes t ''float'' then KFloat
      else if str_includes t ''numeric'' \<or> str_includes t ''decimal'' then KDecimal
      else if str_includes t ''int'' then KInt
      else KOther)"

section \<open>Batch Copier\<close>

text \<open>
  A row is an object: its keys, each once, with their values. \<open>objGet\<close> is \<^verbatim>\<open>out[col]\<close>
  (\<^verbatim>\<open>undefined\<close> for a missing key), \<open>objSet\<close> is \<^verbatim>\<open>out[col] = v\<close>, which rewrites a
  present key in place and adds a missing one. The \<^verbatim>\<open>typesByCol\<close> object of a table is
  the list of its columns with their classes.
\<close>

type_synonym row = "(string \<times> jsval) list"

type_synonym typesByCol = "(string \<times> kind) list"

definition objGet :: "row \<Rightarrow> string \<Rightarrow> jsval" where
  "objGet obj k = (case map_of obj k of None \<Rightarrow> JUndefined | Some v \<Rightarrow> v)"

definition objSet :: "row \<Rightarrow> string \<Rightarrow> jsval \<Rightarrow> row" where
  "objSet obj k v = AList.update k v obj"

text \<open>One turn of the loop over \<^verbatim>\<open>Object.entries(meta.typesByCol)\<close> in \<^verbatim>\<open>copyTableData\<close>.\<close>

definition coerceEntry :: "builtins \<Rightarrow> bool \<Rightarrow> string \<times> kind \<Rightarrow> row \<Rightarrow> row" where
  "coerceEntry B flag e out =
     (case e of (col, kind) \<Rightarrow>
        let v = objGet out col in
        if kind = KDate then objSet out col (toJsDate B v)
        else if kind = KBoolean then objSet out col (toBoolean B flag v)
        else if kind = KInt then objSet out col (toIntOrNull B flag v)
        else if kind = KFloat then objSet out col (toFloatOrNull B flag v)
        else if kind = KDecimal then objSet out col (toDecimalStringOrNull B flag v)
        else out)"

text \<open>The callback of \<^verbatim>\<open>rows.map\<close>: \<open>out\<close> starts as the copy \<^verbatim>\<open>{ ...row }\<close>.\<close>

definition coerceRow :: "builtins \<Rightarrow> bool \<Rightarrow> typesByCol \<Rightarrow> row \<Rightarrow> row" where
  "coerceRow B flag types row = fold (coerceEntry B flag) types row"

definition coercePage :: "builtins \<Rightarrow> bool \<Rightarrow> typesByCol \<Rightarrow> row list \<Rightarrow> row list" where
  "coercePage B flag types rows = map (coerceRow B flag types) rows"

text \<open>
  The same callback on a store of objects, where a row is the address of its object:
  \<^verbatim>\<open>{ ...row }\<close> allocates a new object with the properties of the row, and every
  assignment \<^verbatim>\<open>out[col] = ...\<close> writes to the object at the new address. The addresses
  come from the fetched page, so they are below the size of the store.
\<close>

type_synonym heap = "row list"

definition coerceRowH :: "builtins \<Rightarrow> bool \<Rightarrow> typesByCol \<Rightarrow> heap \<Rightarrow> nat \<Rightarrow> heap \<times> nat" where
  "coerceRowH B flag types h a =
     (let out = length h; h1 = h @ [h ! a] in
      (fold (\<lambda>e hp. hp[out := coerceEntry B flag e (hp ! out)]) types h1, out))"

fun coercePageH :: "builtins \<Rightarrow> bool \<Rightarrow> typesByCol \<Rightarrow> heap \<Rightarrow> nat list \<Rightarrow> heap \<times> nat list" where
  "coercePageH B flag types h [] = (h, [])"
| "coercePageH B flag types h (a # as) =
     (case coerceRowH B flag types h a of (h1, out) \<Rightarrow>
        case coercePageH B flag types h1 as of (h2, outs) \<Rightarrow> (h2, out # outs))"

text \<open>
  The configuration values the copy reads. \<open>BATCH_SIZE\<close> is the page size that reaches
  the \<^verbatim>\<open>LIMIT\<close> clause.
\<close>

record config =
  BATCH_SIZE :: nat
  TREAT_EMPTY_STRING_AS_NULL :: bool
  DEBUG_ON_ERROR :: bool
  ADD_FOREIGN_KEYS :: bool
  INCLUDE_TABLES :: "string list"
  EXCLUDE_TABLES :: "string list"

text \<open>
  What the introspection queries return: a table of \<^verbatim>\<open>sqlite_master\<close>, a row of
  \<^verbatim>\<open>PRAGMA table_info\<close>, a row of \<^verbatim>\<open>PRAGMA foreign_key_list\<close> (an action that is
  null or undefined is \<open>None\<close>), an index with its columns.
\<close>

record table =
  name :: string

record column =
  col_name :: string
  col_type :: string
  notnull :: nat
  dflt_value :: jsval
  pk :: nat

record fkrow =
  fk_id :: nat
  fk_from :: string
  fk_to :: string
  fk_table :: string
  on_update :: "string option"
  on_delete :: "string option"

record index =
  idx_name :: string
  idx_unique :: bool
  idx_columns :: "string list"

text \<open>What the program hands to the destination: a column definition and a constraint.\<close>

record colDef =
  ctype :: PortableType
  allowNull :: bool
  primaryKey :: bool
  autoIncrement :: bool
  defaultValue :: jsval

datatype deferrable = INITIALLY_DEFERRED | INITIALLY_IMMEDIATE | NOT_DEFERRABLE

record fkConstraint =
  con_fields :: "string list"
  cname :: string
  refTable :: string
  refFields :: "string list"
  onUpdate :: string
  onDelete :: string
  deferrable :: deferrable

text \<open>
  The external collaborators: the queries on the read-only source, which return a
  result or raise, and the calls on the destination, which return the destination's new
  state or raise and leave it as it was. \<open>'e\<close> is the type of the errors they raise,
  \<open>'db\<close> the type of the destination's states.
\<close>

record ('e, 'db) collab =
  getSqliteTables :: "'e + table list"
  getSqliteColumns :: "string \<Rightarrow> 'e + column list"
  getSqliteForeignKeys :: "string \<Rightarrow> 'e + fkrow list"
  getSqliteIndexes :: "string \<Rightarrow> 'e + index list"
  countRows :: "string \<Rightarrow> 'e + nat"
  fetchPage :: "string \<Rightarrow> nat \<Rightarrow> nat \<Rightarrow> 'e + row list"
  ensurePgSchema :: "'db \<Rightarrow> 'e + 'db"
  syncModel :: "'db \<Rightarrow> string \<Rightarrow> (string \<times> colDef) list \<Rightarrow> 'e + 'db"
  describeTable :: "'db \<Rightarrow> string \<Rightarrow> 'e + (string \<times> string) list"
  addIndex :: "'db \<Rightarrow> string \<Rightarrow> string list \<Rightarrow> string \<Rightarrow> 'e + 'db"
  bulkInsert :: "'db \<Rightarrow> string \<Rightarrow> row list \<Rightarrow> 'e + 'db"
  addConstraint :: "'db \<Rightarrow> string \<Rightarrow> fkConstraint \<Rightarrow> 'e + 'db"

text \<open>
  How a run ends without completing: a collaborator's error propagates, a property of
  \<^verbatim>\<open>undefined\<close> is read, or the copy loop has not finished within the given number of
  iterations.
\<close>

datatype 'e failure = Raised 'e | TypeError | OutOfFuel

text \<open>
  The row-by-row fallback: the \<^verbatim>\<open>for\<close> loop inside the \<^verbatim>\<open>catch\<close>, which rethrows the
  error of the first row whose own insert fails.
\<close>

fun rowByRow :: "('e, 'db) collab \<Rightarrow> string \<Rightarrow> row list \<Rightarrow> 'db \<Rightarrow> 'e + 'db" where
  "rowByRow X tbl [] d = Inr d"
| "rowByRow X tbl (r # rs) d =
     (case bulkInsert X d tbl [r] of
        Inl rowErr \<Rightarrow> Inl rowErr
      | Inr d' \<Rightarrow> rowByRow X tbl rs d')"

text \<open>The \<^verbatim>\<open>try\<close>/\<^verbatim>\<open>catch\<close> around the bulk insert of one page.\<close>

definition insertPage :: "('e, 'db) collab \<Rightarrow> config \<Rightarrow> string \<Rightarrow> row list \<Rightarrow> 'db \<Rightarrow> 'e + 'db" where
  "insertPage X cfg tbl coerced d =
     (case bulkInsert X d tbl coerced of
        Inr d' \<Rightarrow> Inr d'
      | Inl e \<Rightarrow>
          if DEBUG_ON_ERROR cfg then
            (case rowByRow X tbl coerced d of
               Inl rowErr \<Rightarrow> Inl rowErr
             | Inr d' \<Rightarrow> Inl e)
          else Inl e)"

text \<open>
  The \<^verbatim>\<open>while (offset < total)\<close> loop. The first argument bounds the number of
  iterations: a page can come back empty, and then the offset does not advance.
\<close>

fun copyLoop ::
  "nat \<Rightarrow> ('e, 'db) collab \<Rightarrow> builtins \<Rightarrow> config \<Rightarrow> typesByCol \<Rightarrow> string \<Rightarrow> nat \<Rightarrow> nat \<Rightarrow> 'db
    \<Rightarrow> 'e failure + 'db" where
  "copyLoop 0 X B cfg types tbl tot offset d = (if offset < tot then Inl OutOfFuel else Inr d)"
| "copyLoop (Suc fuel) X B cfg types tbl tot offset d =
     (if offset < tot then
        (case fetchPage X tbl (BATCH_SIZE cfg) offset of
           Inl e \<Rightarrow> Inl (Raised e)
         | Inr rows \<Rightarrow>
             (case insertPage X cfg tbl (coercePage B (TREAT_EMPTY_STRING_AS_NULL cfg) types rows) d of
                Inl e \<Rightarrow> Inl (Raised e)
              | Inr d' \<Rightarrow> copyLoop fuel X B cfg types tbl tot (offset + length rows) d'))
      else Inr d)"

text \<open>
  \<^verbatim>\<open>copyTableData\<close>, given the TableMetadataCache: \<^verbatim>\<open>tableMeta.get(table.name) ||
  { typesByCol: {} }\<close> is the entry's map, or the empty map.
\<close>

definition copyTableData ::
  "nat \<Rightarrow> ('e, 'db) collab \<Rightarrow> builtins \<Rightarrow> config \<Rightarrow> (string \<rightharpoonup> typesByCol) \<Rightarrow> string \<Rightarrow> 'db
    \<Rightarrow> 'e failure + 'db" where
  "copyTableData fuel X B cfg cache tbl d =
     (case countRows X tbl of
        Inl e \<Rightarrow> Inl (Raised e)
      | Inr tot \<Rightarrow>
          if tot = 0 then Inr d
          else
            (let types = (case cache tbl of None \<Rightarrow> [] | Some m \<Rightarrow> m)
             in copyLoop fuel X B cfg types tbl tot 0 d))"

section \<open>Constraint Linker\<close>

text \<open>
  \<^verbatim>\<open>String.prototype.replace\<close> with a string pattern: the first occurrence is
  replaced. The replacement used here has no \<^verbatim>\<open>$\<close> pattern.
\<close>

fun replaceFirst :: "string \<Rightarrow> string \<Rightarrow> string \<Rightarrow> string" where
  "replaceFirst [] pat rep = (if pat = [] then rep else [])"
| "replaceFirst (c # cs) pat rep =
     (if startsWith (c # cs) pat then rep @ drop (length pat) (c # cs)
      else c # replaceFirst cs pat rep)"

text \<open>\<^verbatim>\<open>(action || 'NO ACTION').replace('RESTRICT', 'NO ACTION')\<close>.\<close>

definition normalizeAction :: "string option \<Rightarrow> string" where
  "normalizeAction action =
     replaceFirst (case action of None \<Rightarrow> ''NO ACTION'' | Some s \<Rightarrow> if s = [] then ''NO ACTION'' else s)
       ''RESTRICT'' ''NO ACTION''"

text \<open>
  The grouping loop: \<^verbatim>\<open>byId\<close> is a Map, which keeps its keys in the order of their
  first insertion.
\<close>

definition groupStep :: "fkrow \<Rightarrow> (nat \<times> fkrow list) list \<Rightarrow> (nat \<times> fkrow list) list" where
  "groupStep fk byId =
     (let byId1 = (if map_of byId (fk_id fk) = None then AList.update (fk_id fk) [] byId else byId)
      in AList.update (fk_id fk)
           ((case map_of byId1 (fk_id fk) of None \<Rightarrow> [] | Some parts \<Rightarrow> parts) @ [fk]) byId1)"

definition groupById :: "fkrow list \<Rightarrow> (nat \<times> fkrow list) list" where
  "groupById fks = fold groupStep fks []"

text \<open>
  The argument of \<^verbatim>\<open>addConstraint\<close> for one group; reading \<^verbatim>\<open>parts[0].table\<close> of an
  empty group would raise a TypeError.
\<close>

definition mkConstraint :: "string \<Rightarrow> nat \<Rightarrow> fkrow list \<Rightarrow> fkConstraint option" where
  "mkConstraint tbl i parts =
     (case parts of
        [] \<Rightarrow> None
      | p0 # rest \<Rightarrow> Some
          \<lparr> con_fields = map fk_from parts,
            cname = tbl @ ''_fk_'' @ showNat i,
            refTable = fk_table p0,
            refFields = map fk_to parts,
            onUpdate = normalizeAction (on_update p0),
            onDelete = normalizeAction (on_delete p0),
            deferrable = INITIALLY_DEFERRED \<rparr>)"

fun addGroups :: "('e, 'db) collab \<Rightarrow> string \<Rightarrow> (nat \<times> fkrow list) list \<Rightarrow> 'db \<Rightarrow> 'e failure + 'db" where
  "addGroups X tbl [] d = Inr d"
| "addGroups X tbl ((i, parts) # groups) d =
     (case mkConstraint tbl i parts of
        None \<Rightarrow> Inl TypeError
      | Some c \<Rightarrow>
          (case addConstraint X d tbl c of
             Inl e \<Rightarrow> Inl (Raised e)
           | Inr d' \<Rightarrow> addGroups X tbl groups d'))"

definition addForeignKeysForTable :: "('e, 'db) collab \<Rightarrow> string \<Rightarrow> 'db \<Rightarrow> 'e failure + 'db" where
  "addForeignKeysForTable X tbl d =
     (case getSqliteForeignKeys X tbl of
        Inl e \<Rightarrow> Inl (Raised e)
      | Inr fks \<Rightarrow> if length fks = 0 then Inr d else addGroups X tbl (groupById fks) d)"


section \<open>DDL Synthesizer and main control flow\<close>

definition isInternalSqliteTable :: "string \<Rightarrow> bool" where
  "isInternalSqliteTable n = startsWith n ''sqlite_''"

definition wantsTable :: "config \<Rightarrow> string \<Rightarrow> bool" where
  "wantsTable cfg n =
     (if length (INCLUDE_TABLES cfg) \<noteq> 0 \<and> n \<notin> set (INCLUDE_TABLES cfg) then False
      else if n \<in> set (EXCLUDE_TABLES cfg) then False
      else True)"

text \<open>
  The attribute \<^verbatim>\<open>createPgTableFromSqlite\<close> builds for a column. The default value is
  carried as introspected: the Sequelize literal that \<^verbatim>\<open>normalizeDefaultValue\<close> makes of it
  is read by the destination only.
\<close>

definition columnAttr :: "column \<Rightarrow> string \<times> colDef" where
  "columnAttr c =
     (col_name c,
      \<lparr> ctype = mapSqliteTypeToSequelize (col_type c),
        allowNull = (notnull c = 0),
        primaryKey = (pk c \<noteq> 0),
        autoIncrement = (pk c \<noteq> 0 \<and> str_includes (toUpperCase (col_type c)) ''INT''),
        defaultValue = dflt_value c \<rparr>)"

text \<open>The classification loop over \<^verbatim>\<open>Object.entries(desc)\<close>.\<close>

definition classifyDesc :: "(string \<times> string) list \<Rightarrow> typesByCol" where
  "classifyDesc desc = fold (\<lambda>e types. AList.update (fst e) (classifyPgType (snd e)) types) desc []"

fun addUniqueIndexes :: "('e, 'db) collab \<Rightarrow> string \<Rightarrow> index list \<Rightarrow> 'db \<Rightarrow> 'e failure + 'db" where
  "addUniqueIndexes X tbl [] d = Inr d"
| "addUniqueIndexes X tbl (idx # rest) d =
     (if idx_unique idx then
        (case addIndex X d tbl (idx_columns idx) (idx_name idx) of
           Inl e \<Rightarrow> Inl (Raised e)
         | Inr d' \<Rightarrow> addUniqueIndexes X tbl rest d')
      else addUniqueIndexes X tbl rest d)"

text \<open>
  The state of a run: the TableMetadataCache \<^verbatim>\<open>tableMeta\<close>, the destination, and a
  trace that records, in order, each \<^verbatim>\<open>tableMeta.set\<close> and each call of
  \<^verbatim>\<open>copyTableData\<close> with the cache entry the table has at that moment. A step returns
  the failure that ends the run, if any, and the state reached; after a failure the
  destination's state is not followed further.
\<close>

datatype event = MetaSet string | CopyBegin string "typesByCol option"

record 'db mstate =
  tableMeta :: "string \<rightharpoonup> typesByCol"
  pg :: 'db
  trace :: "event list"

definition createPgTableFromSqlite ::
  "('e, 'db) collab \<Rightarrow> table \<Rightarrow> 'db mstate \<Rightarrow> 'e failure option \<times> 'db mstate" where
  "createPgTableFromSqlite X t st =
     (case getSqliteColumns X (name t) of
        Inl e \<Rightarrow> (Some (Raised e), st)
      | Inr columns \<Rightarrow>
          (case syncModel X (pg st) (name t) (map columnAttr columns) of
             Inl e \<Rightarrow> (Some (Raised e), st)
           | Inr d1 \<Rightarrow>
               (case describeTable X d1 (name t) of
                  Inl e \<Rightarrow> (Some (Raised e), st\<lparr>pg := d1\<rparr>)
                | Inr desc \<Rightarrow>
                    (let st2 = st\<lparr>pg := d1,
                                  tableMeta := (tableMeta st)(name t \<mapsto> classifyDesc desc),
                                  trace := trace st @ [MetaSet (name t)]\<rparr>
                     in case getSqliteIndexes X (name t) of
                          Inl e \<Rightarrow> (Some (Raised e), st2)
                        | Inr indexes \<Rightarrow>
                            (case addUniqueIndexes X (name t) indexes d1 of
                               Inl f \<Rightarrow> (Some f, st2)
                             | Inr d2 \<Rightarrow> (None, st2\<lparr>pg := d2\<rparr>))))))"

definition copyStep ::
  "nat \<Rightarrow> ('e, 'db) collab \<Rightarrow> builtins \<Rightarrow> config \<Rightarrow> table \<Rightarrow> 'db mstate \<Rightarrow> 'e failure option \<times> 'db mstate" where
  "copyStep fuel X B cfg t st =
     (let st1 = st\<lparr>trace := trace st @ [CopyBegin (name t) (tableMeta st (name t))]\<rparr>
      in case copyTableData fuel X B cfg (tableMeta st) (name t) (pg st) of
           Inl f \<Rightarrow> (Some f, st1)
         | Inr d \<Rightarrow> (None, st1\<lparr>pg := d\<rparr>))"

definition fkStep :: "('e, 'db) collab \<Rightarrow> table \<Rightarrow> 'db mstate \<Rightarrow> 'e failure option \<times> 'db mstate" where
  "fkStep X t st =
     (case addForeignKeysForTable X (name t) (pg st) of
        Inl f \<Rightarrow> (Some f, st)
      | Inr d \<Rightarrow> (None, st\<lparr>pg := d\<rparr>))"

text \<open>A \<^verbatim>\<open>for (const table of tables)\<close> loop whose body is awaited: the first failure ends it.\<close>

fun forEach :: "('a \<Rightarrow> 's \<Rightarrow> 'f option \<times> 's) \<Rightarrow> 'a list \<Rightarrow> 's \<Rightarrow> 'f option \<times> 's" where
  "forEach body [] st = (None, st)"
| "forEach body (x # xs) st =
     (case body x st of
        (Some f, st') \<Rightarrow> (Some f, st')
      | (None, st') \<Rightarrow> forEach body xs st')"

text \<open>
  The tables \<^verbatim>\<open>main\<close> migrates, and \<^verbatim>\<open>main\<close> from the creation of the schema on; the cache
  is empty when the run starts. Each table's copy gets the same bound on its loop.
\<close>

definition selectTables :: "config \<Rightarrow> table list \<Rightarrow> table list" where
  "selectTables cfg tablesAll =
     filter (\<lambda>t. \<not> isInternalSqliteTable (name t) \<and> wantsTable cfg (name t)) tablesAll"

definition main ::
  "nat \<Rightarrow> ('e, 'db) collab \<Rightarrow> builtins \<Rightarrow> config \<Rightarrow> 'db \<Rightarrow> 'e failure option \<times> 'db mstate" where
  "main fuel X B cfg d =
     (let st0 = \<lparr>tableMeta = Map.empty, pg = d, trace = []\<rparr> in
      case ensurePgSchema X d of
        Inl e \<Rightarrow> (Some (Raised e), st0)
      | Inr d0 \<Rightarrow>
          (case getSqliteTables X of
             Inl e \<Rightarrow> (Some (Raised e), st0\<lparr>pg := d0\<rparr>)
           | Inr tablesAll \<Rightarrow>
               (let tables = selectTables cfg tablesAll; st1 = st0\<lparr>pg := d0\<rparr> in
                if length tables = 0 then (None, st1)
                else
                  (case forEach (createPgTableFromSqlite X) tables st1 of
                     (Some f, st2) \<Rightarrow> (Some f, st2)
                   | (None, st2) \<Rightarrow>
                       (case forEach (copyStep fuel X B cfg) tables st2 of
                          (Some f, st3) \<Rightarrow> (Some f, st3)
                        | (None, st3) \<Rightarrow>
                            if ADD_FOREIGN_KEYS cfg then forEach (fkStep X) tables st3
                            else (None, st3))))))"

text \<open>
  The shape of a run's trace over the migrated tables: the cache entries of the first
  \<open>k\<close> tables, then the copies of the first \<open>j\<close> tables, where a copy has begun only
  if every table has its entry.
\<close>

definition phased :: "table list \<Rightarrow> 'db mstate \<Rightarrow> bool" where
  "phased ts st =
     (\<exists>k j. k \<le> length ts \<and> j \<le> length ts \<and>
        trace st = map (\<lambda>t. MetaSet (name t)) (take k ts)
                 @ map (\<lambda>t. CopyBegin (name t) (tableMeta st (name t))) (take j ts) \<and>
        (0 < j \<longrightarrow> k = length ts) \<and>
        (\<forall>t \<in> set (take k ts). tableMeta st (name t) \<noteq> None))"

text \<open>
  Every entry of the cache is the classification of a description that
  \<^verbatim>\<open>describeTable\<close> returned for that table.
\<close>

definition readBack :: "('e, 'db) collab \<Rightarrow> (string \<rightharpoonup> typesByCol) \<Rightarrow> bool" where
  "readBack X cache =
     (\<forall>n types. cache n = Some types \<longrightarrow>
        (\<exists>d desc. describeTable X d n = Inr desc \<and> types = classifyDesc desc))"

section \<open>An example migration\<close>

text \<open>
  A source with one table \<open>users\<close> and a destination that records what it is given,
  for evaluating the functions at concrete inputs. The destination's state is the rows
  inserted so far and the constraints created so far. It creates \<open>users\<close> with the
  column types PostgreSQL reports for the table of the spec's end-to-end scenario, and
  it rejects an insert that holds a row whose \<open>id\<close> is null; the error of a one-row
  insert and the error of a longer insert are different errors.
\<close>

datatype exampleError = BatchRejected | RowRejected

type_synonym exampleDb = "row list \<times> fkConstraint list"

definition exampleCollab :: "row list \<Rightarrow> fkrow list \<Rightarrow> (exampleError, exampleDb) collab" where
  "exampleCollab rows fks =
     \<lparr> getSqliteTables = Inr [\<lparr>name = ''users''\<rparr>],
       getSqliteColumns = (\<lambda>t. Inr
         [\<lparr>col_name = ''id'', col_type = ''INTEGER'', notnull = 1, dflt_value = JNull, pk = 1\<rparr>,
          \<lparr>col_name = ''name'', col_type = ''TEXT'', notnull = 0, dflt_value = JNull, pk = 0\<rparr>,
          \<lparr>col_name = ''active'', col_type = ''BOOLEAN'', notnull = 0, dflt_value = JNull, pk = 0\<rparr>,
          \<lparr>col_name = ''created'', col_type = ''DATETIME'', notnull = 0, dflt_value = JNull, pk = 0\<rparr>]),
       getSqliteForeignKeys = (\<lambda>t. Inr fks),
       getSqliteIndexes = (\<lambda>t. Inr []),
       countRows = (\<lambda>t. Inr (length rows)),
       fetchPage = (\<lambda>t limit offset. Inr (take limit (drop offset rows))),
       ensurePgSchema = (\<lambda>d. Inr d),
       syncModel = (\<lambda>d t attrs. Inr d),
       describeTable = (\<lambda>d t. Inr
         [(''id'', ''INTEGER''), (''name'', ''TEXT''), (''active'', ''BOOLEAN''),
          (''created'', ''TIMESTAMP WITH TIME ZONE'')]),
       addIndex = (\<lambda>d t cols n. Inr d),
       bulkInsert = (\<lambda>d t page.
         if list_ex (\<lambda>r. objGet r ''id'' = JNull) page
         then Inl (if length page = 1 then RowRejected else BatchRejected)
         else Inr (fst d @ page, snd d)),
       addConstraint = (\<lambda>d t c. Inr (fst d, snd d @ [c])) \<rparr>"

definition exampleConfig :: "bool \<Rightarrow> config" where
  "exampleConfig debug =
     \<lparr> BATCH_SIZE = 5000, TREAT_EMPTY_STRING_AS_NULL = True, DEBUG_ON_ERROR = debug,
       ADD_FOREIGN_KEYS = True, INCLUDE_TABLES = [], EXCLUDE_TABLES = [] \<rparr>"

definition exampleTypes :: typesByCol where
  "exampleTypes = [(''id'', KInt), (''name'', KOther), (''active'', KBoolean), (''created'', KDate)]"

text \<open>The two rows of the spec's end-to-end scenario, and a row whose \<open>id\<close> is not a number.\<close>

definition alice :: row where
  "alice = [(''id'', JNum (Finite 1)), (''name'', JStr ''Alice''), (''active'', JNum (Finite 1)),
            (''created'', JNum (Finite 1700000000))]"

definition blank :: row where
  "blank = [(''id'', JNum (Finite 2)), (''name'', JStr []), (''active'', JNum (Finite 0)),
            (''created'', JStr [])]"

definition broken :: row where
  "broken = [(''id'', JStr ''n/a''), (''name'', JStr ''Bob''), (''active'', JStr ''yes''),
             (''created'', JStr ''soon'')]"


section \<open>Properties of the sanitizers\<close>














lemma trunc_rat_int: "of_int \<lfloor>r\<rfloor> = r \<Longrightarrow> of_int (trunc_rat r) = r"
  by (metis ceiling_of_int trunc_rat_def)

lemma decimalRe_nonempty: "decimalRe s \<Longrightarrow> s \<noteq> []"
  by (auto simp: decimalRe_def)

lemma toDecimal_match: "decimalRe (trim s) \<Longrightarrow> toDecimalStringOrNull B flag (JStr s) = JStr (trim s)"
  by (auto simp: toDecimalStringOrNull_def emptyStringToNull_def dest: decimalRe_nonempty)


text \<open>
  Claim C8. Every per-class sanitizer returns a value that is already in canonical form
  for its class unchanged: null for every class, a Date for \<open>date\<close>, a boolean for
  \<open>boolean\<close>, a finite integral number for \<open>int\<close>, a finite number for \<open>float\<close>, a
  string that matches the decimal pattern and has no surrounding whitespace for
  \<open>decimal\<close>. It holds for either setting of the empty-string flag and for every engine.
\<close>

theorem sanitize_canonical: "canonical k v \<Longrightarrow> sanitize B flag k v = v"
proof (cases v)
  case (JStr s)
  assume "canonical k v"
  with JStr have k: "k = KDecimal" and m: "decimalRe s" "trim s = s"
    by (cases k; simp)+
  from m have "decimalRe (trim s)" by simp
  from toDecimal_match[OF this] m k JStr show ?thesis by simp
next
  case (JNum n)
  assume c: "canonical k v"
  show ?thesis
  proof (cases n)
    case (Finite r)
    with c JNum show ?thesis
      by (cases k) (simp_all add: toIntOrNull_def toFloatOrNull_def emptyStringToNull_def trunc_rat_int)
  qed (use c JNum in \<open>cases k; simp\<close>)+
qed (cases k; simp add: toJsDate_def toBoolean_def toIntOrNull_def toFloatOrNull_def
      toDecimalStringOrNull_def emptyStringToNull_def)+

text \<open>Claim C8 at five canonical values, one per class.\<close>

theorem sanitize_canonical_witness:
  "sanitize exampleBuiltins True KDecimal (JStr ''19.990'') = JStr ''19.990''
   \<and> sanitize exampleBuiltins True KInt (JNum (Finite 42)) = JNum (Finite 42)
   \<and> sanitize exampleBuiltins False KBoolean (JBool True) = JBool True
   \<and> sanitize exampleBuiltins True KDate (JDate (Some 1700000000000)) = JDate (Some 1700000000000)
   \<and> sanitize exampleBuiltins True KFloat JNull = JNull"
proof -
  have d: "canonical KDecimal (JStr ''19.990'')"
    by (simp add: decimalRe_def fractionRe_def exponentRe_def isDigit_def trim_def isSpace_def)
  have i: "canonical KInt (JNum (Finite 42))" by simp
  show ?thesis
    using sanitize_canonical[OF d, of exampleBuiltins True]
      sanitize_canonical[OF i, of exampleBuiltins True]
      sanitize_canonical[of KBoolean "JBool True" exampleBuiltins False]
      sanitize_canonical[of KDate "JDate (Some 1700000000000)" exampleBuiltins True]
      sanitize_canonical[of KFloat JNull exampleBuiltins True]
    by simp
qed


























section \<open>Properties of the Type Mapper\<close>

text \<open>
  Claim C3. \<^verbatim>\<open>mapSqliteTypeToSequelize\<close> is a function from strings to PortableTypes:
  trimming, upper-casing, the substring tests, the three patterns and the two
  constructors return for every string, so the mapper has no failing branch and its
  result depends on the string alone. A string that matches none of the listed patterns
  (INT, CHAR/CLOB/TEXT, BLOB, REAL/FLOA/DOUB, DEC/NUM, DATE/TIME, exactly BOOLEAN,
  exactly UUID) maps to TEXT; so do the empty string and a string of stray punctuation.
\<close>

theorem type_mapper_fallback:
  "(\<exists>t. mapSqliteTypeToSequelize s = t)
   \<and> (s = s' \<longrightarrow> mapSqliteTypeToSequelize s = mapSqliteTypeToSequelize s')
   \<and> (\<not> listedPattern s \<longrightarrow> mapSqliteTypeToSequelize s = TEXT)
   \<and> mapSqliteTypeToSequelize [] = TEXT
   \<and> mapSqliteTypeToSequelize '')(1,,'' = TEXT"
proof -
  have "mapSqliteTypeToSequelize [] = TEXT" by code_simp
  moreover have "mapSqliteTypeToSequelize '')(1,,'' = TEXT" by code_simp
  moreover have "\<not> listedPattern s \<Longrightarrow> mapSqliteTypeToSequelize s = TEXT"
    by (simp add: listedPattern_def mapSqliteTypeToSequelize_def Let_def)
  ultimately show ?thesis by blast
qed

text \<open>Claim C3 at a type name SQLite accepts and the mapper does not list.\<close>

theorem type_mapper_fallback_witness:
  "mapSqliteTypeToSequelize '' json '' = TEXT"
proof -
  have "\<not> listedPattern '' json ''" by code_simp
  with type_mapper_fallback[of "'' json ''"] show ?thesis by blast
qed

section \<open>Properties of the Batch Copier\<close>



lemma coerceEntry_sanitize:
  "coerceEntry B flag (col, kind) out =
     (if kind = KOther then out else objSet out col (sanitize B flag kind (objGet out col)))"
  by (cases kind) (simp_all add: coerceEntry_def)

lemma map_of_coerceEntry:
  "map_of (coerceEntry B flag (col, kind) out) k =
     (if k = col \<and> kind \<noteq> KOther then Some (sanitize B flag kind (objGet out col)) else map_of out k)"
  by (simp add: coerceEntry_sanitize objSet_def update_conv')

lemma keys_coerceEntry:
  "fst ` set (coerceEntry B flag (col, kind) out) = (if kind = KOther then {} else {col}) \<union> fst ` set out"
  by (simp add: coerceEntry_sanitize objSet_def dom_update)

lemma coerceRow_Cons:
  "coerceRow B flag (e # types) row = coerceRow B flag types (coerceEntry B flag e row)"
  by (simp add: coerceRow_def)

lemma coerceRow_unlisted:
  "k \<notin> fst ` set types \<Longrightarrow> map_of (coerceRow B flag types row) k = map_of row k"
proof (induction types arbitrary: row)
  case Nil
  then show ?case by (simp add: coerceRow_def)
next
  case (Cons e types)
  obtain c kd where e: "e = (c, kd)" by (cases e)
  with Cons.prems have "k \<noteq> c" "k \<notin> fst ` set types" by auto
  with Cons.IH e show ?case
    by (simp add: coerceRow_Cons map_of_coerceEntry)
qed

lemma coerceRow_listed:
  "distinct (map fst types) \<Longrightarrow> (k, kind) \<in> set types \<Longrightarrow>
   map_of (coerceRow B flag types row) k =
     (if kind = KOther then map_of row k else Some (sanitize B flag kind (objGet row k)))"
proof (induction types arbitrary: row)
  case Nil
  then show ?case by simp
next
  case (Cons e types)
  obtain c kd where e: "e = (c, kd)" by (cases e)
  show ?case
  proof (cases "(k, kind) = e")
    case True
    with Cons.prems e have "k \<notin> fst ` set types" by auto
    from coerceRow_unlisted[OF this] True e show ?thesis
      by (auto simp: coerceRow_Cons map_of_coerceEntry)
  next
    case False
    with Cons.prems e have in_tl: "(k, kind) \<in> set types" and d: "distinct (map fst types)"
      by auto
    from Cons.prems e in_tl have "k \<noteq> c" by (auto simp: image_iff)
    with Cons.IH[OF d in_tl] e show ?thesis
      by (simp add: coerceRow_Cons map_of_coerceEntry objGet_def)
  qed
qed

lemma coerceRow_keys:
  "fst ` set (coerceRow B flag types row) =
     fst ` set row \<union> {c. \<exists>kd. (c, kd) \<in> set types \<and> kd \<noteq> KOther}"
proof (induction types arbitrary: row)
  case Nil
  then show ?case by (simp add: coerceRow_def)
next
  case (Cons e types)
  obtain c kd where e: "e = (c, kd)" by (cases e)
  show ?case
    unfolding coerceRow_Cons Cons.IH e keys_coerceEntry by auto
qed

lemma coerceRow_distinct:
  "distinct (map fst row) \<Longrightarrow> distinct (map fst (coerceRow B flag types row))"
proof (induction types arbitrary: row)
  case Nil
  then show ?case by (simp add: coerceRow_def)
next
  case (Cons e types)
  obtain c kd where e: "e = (c, kd)" by (cases e)
  from Cons.prems have "distinct (map fst (coerceEntry B flag e row))"
    by (simp add: e coerceEntry_sanitize objSet_def distinct_update)
  from Cons.IH[OF this] show ?case by (simp add: coerceRow_Cons)
qed

lemma fold_at_address:
  "out < length h \<Longrightarrow>
   fold (\<lambda>e hp. hp[out := f e (hp ! out)]) types h = h[out := fold f types (h ! out)]"
  by (induction types arbitrary: h) simp_all

lemma coerceRowH_result:
  "coerceRowH B flag types h a = (h @ [coerceRow B flag types (h ! a)], length h)"
  by (simp add: coerceRowH_def Let_def fold_at_address coerceRow_def)

lemma coercePageH_result:
  "\<forall>a \<in> set as. a < length h \<Longrightarrow>
   coercePageH B flag types h as =
     (h @ coercePage B flag types (map (nth h) as), [length h ..< length h + length as])"
proof (induction as arbitrary: h)
  case Nil
  then show ?case by (simp add: coercePage_def)
next
  case (Cons a as)
  let ?h1 = "h @ [coerceRow B flag types (h ! a)]"
  from Cons.prems have "\<forall>b \<in> set as. b < length ?h1" by auto
  from Cons.IH[OF this] Cons.prems
  have "coercePageH B flag types ?h1 as =
      (?h1 @ coercePage B flag types (map (nth h) as), [Suc (length h) ..< Suc (length h) + length as])"
    by (simp add: nth_append del: upt_Suc cong: map_cong)
  then show ?case
    by (simp add: coerceRowH_result coercePage_def upt_conv_Cons del: upt_Suc)
qed



lemma sanitize_undefined: "kind \<noteq> KOther \<Longrightarrow> sanitize B flag kind JUndefined = JNull"
  by (cases kind)
    (simp_all add: toJsDate_def toBoolean_def toIntOrNull_def toFloatOrNull_def
      toDecimalStringOrNull_def emptyStringToNull_def)

lemma objGet_missing: "k \<notin> fst ` set row \<Longrightarrow> objGet row k = JUndefined"
proof -
  assume "k \<notin> fst ` set row"
  then have "map_of row k = None" by (simp add: map_of_eq_None_iff)
  then show ?thesis by (simp add: objGet_def)
qed

lemma coercePageH_frame:
  assumes "\<forall>a \<in> set as. a < length h"
  shows "case coercePageH B flag types h as of (h', outs) \<Rightarrow>
      take (length h) h' = h \<and>
      map (nth h') outs = coercePage B flag types (map (nth h) as) \<and>
      (\<forall>out \<in> set outs. length h \<le> out \<and> out < length h')"
proof -
  let ?new = "coercePage B flag types (map (nth h) as)"
  have len: "length ?new = length as" by (simp add: coercePage_def)
  have "map (nth (h @ ?new)) [length h ..< length h + length as] = ?new"
    by (rule nth_equalityI) (simp_all add: len nth_append)
  with len show ?thesis
    unfolding coercePageH_result[OF assms] by auto
qed

text \<open>
  Claim C10, as the code has it. Sanitizing a page leaves every fetched row object as
  it was: each row is copied into a new object, and only the new object is written.
  In the copy, a key that is not a column of the table's \<^verbatim>\<open>typesByCol\<close> map keeps its
  value, and so does a column of class \<open>other\<close>; a column of one of the five other
  classes holds the sanitizer's result for the row's value. No key is removed. A key is
  added exactly for each column of the five classes that the row lacks, and it is added
  with the value null (the sanitizer's result for \<^verbatim>\<open>undefined\<close>); when the row has all
  those columns, its keys are unchanged. The map is an object, so its columns are
  distinct.
\<close>

theorem coerce_frame:
  assumes "distinct (map fst types)"
  shows "(k \<notin> fst ` set types \<longrightarrow> map_of (coerceRow B flag types row) k = map_of row k)
    \<and> ((k, KOther) \<in> set types \<longrightarrow> map_of (coerceRow B flag types row) k = map_of row k)
    \<and> ((k, kind) \<in> set types \<and> kind \<noteq> KOther \<longrightarrow>
         map_of (coerceRow B flag types row) k = Some (sanitize B flag kind (objGet row k)))
    \<and> ((k, kind) \<in> set types \<and> kind \<noteq> KOther \<and> k \<notin> fst ` set row \<longrightarrow>
         map_of (coerceRow B flag types row) k = Some JNull)
    \<and> fst ` set (coerceRow B flag types row) =
         fst ` set row \<union> {c. \<exists>kd. (c, kd) \<in> set types \<and> kd \<noteq> KOther}
    \<and> ((\<forall>c kd. (c, kd) \<in> set types \<and> kd \<noteq> KOther \<longrightarrow> c \<in> fst ` set row) \<longrightarrow>
         fst ` set (coerceRow B flag types row) = fst ` set row)
    \<and> ((\<forall>a \<in> set as. a < length h) \<longrightarrow>
         (case coercePageH B flag types h as of (h', outs) \<Rightarrow>
            take (length h) h' = h \<and>
            map (nth h') outs = coercePage B flag types (map (nth h) as) \<and>
            (\<forall>out \<in> set outs. length h \<le> out \<and> out < length h')))"
proof -
  note listed = coerceRow_listed[OF assms, of k _ B flag row]
  have a: "k \<notin> fst ` set types \<longrightarrow> map_of (coerceRow B flag types row) k = map_of row k"
    by (simp add: coerceRow_unlisted)
  have b: "(k, KOther) \<in> set types \<longrightarrow> map_of (coerceRow B flag types row) k = map_of row k"
    using listed[of KOther] by simp
  have c: "(k, kind) \<in> set types \<and> kind \<noteq> KOther \<longrightarrow>
         map_of (coerceRow B flag types row) k = Some (sanitize B flag kind (objGet row k))"
    using listed[of kind] by simp
  have d: "(k, kind) \<in> set types \<and> kind \<noteq> KOther \<and> k \<notin> fst ` set row \<longrightarrow>
         map_of (coerceRow B flag types row) k = Some JNull"
    using c by (simp add: objGet_missing sanitize_undefined)
  have e: "fst ` set (coerceRow B flag types row) =
         fst ` set row \<union> {c. \<exists>kd. (c, kd) \<in> set types \<and> kd \<noteq> KOther}"
    by (rule coerceRow_keys)
  have f: "(\<forall>c kd. (c, kd) \<in> set types \<and> kd \<noteq> KOther \<longrightarrow> c \<in> fst ` set row) \<longrightarrow>
         fst ` set (coerceRow B flag types row) = fst ` set row"
    unfolding e by auto
  have g: "(\<forall>a \<in> set as. a < length h) \<longrightarrow>
         (case coercePageH B flag types h as of (h', outs) \<Rightarrow>
            take (length h) h' = h \<and>
            map (nth h') outs = coercePage B flag types (map (nth h) as) \<and>
            (\<forall>out \<in> set outs. length h \<le> out \<and> out < length h'))"
    using coercePageH_frame[of as h B flag types] by blast
  from a b c d e f g show ?thesis by (intro conjI)
qed

text \<open>
  Claim C10 as stated says that no key is added. A row without the column \<open>note\<close>,
  sanitized with a map that classifies \<open>note\<close> as \<open>int\<close>, comes back with the key
  \<open>note\<close> and the value null.
\<close>

theorem coerce_adds_missing_column:
  "coerceRow exampleBuiltins True [(''note'', KInt)] [(''id'', JNum (Finite 1))]
     = [(''id'', JNum (Finite 1)), (''note'', JNull)]
   \<and> fst ` set (coerceRow exampleBuiltins True [(''note'', KInt)] [(''id'', JNum (Finite 1))])
     \<noteq> fst ` set [(''id'', JNum (Finite 1))]"
  by (simp add: coerceRow_def coerceEntry_def objGet_def objSet_def toIntOrNull_def
      emptyStringToNull_def)

text \<open>
  Claim C10 on the rows of the example: an \<open>other\<close> column, a classified column, a
  missing classified column, the keys of a full row, an unlisted column, and a page of
  two rows in a store.
\<close>

theorem coerce_frame_witness:
  "map_of (coerceRow exampleBuiltins True exampleTypes blank) ''name'' = Some (JStr [])
   \<and> map_of (coerceRow exampleBuiltins True exampleTypes blank) ''created'' = Some JNull
   \<and> map_of (coerceRow exampleBuiltins True exampleTypes [(''id'', JNum (Finite 1))]) ''active'' = Some JNull
   \<and> fst ` set (coerceRow exampleBuiltins True exampleTypes blank) = fst ` set blank
   \<and> map_of (coerceRow exampleBuiltins True [(''id'', KInt)] blank) ''created'' = Some (JStr [])
   \<and> coercePageH exampleBuiltins True exampleTypes [alice, blank] [1, 0]
       = ([alice, blank, coerceRow exampleBuiltins True exampleTypes blank,
           coerceRow exampleBuiltins True exampleTypes alice], [2, 3])"
proof -
  have d: "distinct (map fst exampleTypes)" "distinct (map fst [(''id'', KInt)])"
    by (simp_all add: exampleTypes_def)
  have m: "(''name'', KOther) \<in> set exampleTypes" "(''created'', KDate) \<in> set exampleTypes"
    "(''active'', KBoolean) \<in> set exampleTypes" "''active'' \<notin> fst ` set [(''id'', JNum (Finite 1))]"
    "''created'' \<notin> fst ` set [(''id'', KInt)]"
    by (simp_all add: exampleTypes_def)
  have k: "\<forall>c kd. (c, kd) \<in> set exampleTypes \<and> kd \<noteq> KOther \<longrightarrow> c \<in> fst ` set blank"
    by (auto simp: exampleTypes_def blank_def)
  have v: "map_of blank ''name'' = Some (JStr [])" "map_of blank ''created'' = Some (JStr [])"
    "objGet blank ''created'' = JStr []"
    by (simp_all add: blank_def objGet_def)
  have a: "\<forall>a \<in> set [1, 0::nat]. a < length [alice, blank]" by simp
  have p: "coercePageH exampleBuiltins True exampleTypes [alice, blank] [1, 0]
       = ([alice, blank, coerceRow exampleBuiltins True exampleTypes blank,
           coerceRow exampleBuiltins True exampleTypes alice], [2, 3])"
    using coerce_frame[OF d(1), of "''name''" exampleBuiltins True blank KOther "[1, 0]" "[alice, blank]"] a
    by (simp add: coerceRowH_result)
  show ?thesis
    using coerce_frame[OF d(1), of "''name''" exampleBuiltins True blank KOther "[]" "[]"]
      coerce_frame[OF d(1), of "''created''" exampleBuiltins True blank KDate "[]" "[]"]
      coerce_frame[OF d(1), of "''active''" exampleBuiltins True "[(''id'', JNum (Finite 1))]" KBoolean "[]" "[]"]
      coerce_frame[OF d(2), of "''created''" exampleBuiltins True blank KInt "[]" "[]"]
      m k v p
    by (simp add: toJsDate_def objGet_def toBoolean_def emptyStringToNull_def)
qed



lemma coerceRow_empty_types: "coerceRow B flag [] row = row"
  by (simp add: coerceRow_def)

lemma coercePage_empty_types: "coercePage B flag [] rows = rows"
  by (induction rows) (simp_all add: coercePage_def coerceRow_empty_types)

text \<open>
  Claim C9. When the TableMetadataCache has no entry for the table, \<^verbatim>\<open>copyTableData\<close>
  raises nothing of its own: it runs the copy loop with the empty map. With the empty
  map a row, and so a page, is returned as it was fetched, and each turn of the loop
  hands the fetched page itself to the insert.
\<close>

theorem missing_meta_copies_verbatim:
  "(cache tbl = None \<longrightarrow>
      copyTableData fuel X B cfg cache tbl d =
        (case countRows X tbl of
           Inl e \<Rightarrow> Inl (Raised e)
         | Inr tot \<Rightarrow> if tot = 0 then Inr d else copyLoop fuel X B cfg [] tbl tot 0 d))
   \<and> coerceRow B flag [] row = row
   \<and> coercePage B flag [] rows = rows
   \<and> copyLoop (Suc fuel) X B cfg [] tbl tot offset d =
       (if offset < tot then
          (case fetchPage X tbl (BATCH_SIZE cfg) offset of
             Inl e \<Rightarrow> Inl (Raised e)
           | Inr page \<Rightarrow>
               (case insertPage X cfg tbl page d of
                  Inl e \<Rightarrow> Inl (Raised e)
                | Inr d' \<Rightarrow> copyLoop fuel X B cfg [] tbl tot (offset + length page) d'))
        else Inr d)"
proof -
  have "cache tbl = None \<longrightarrow>
      copyTableData fuel X B cfg cache tbl d =
        (case countRows X tbl of
           Inl e \<Rightarrow> Inl (Raised e)
         | Inr tot \<Rightarrow> if tot = 0 then Inr d else copyLoop fuel X B cfg [] tbl tot 0 d)"
    by (auto simp: copyTableData_def split: sum.splits)
  then show ?thesis
    by (simp add: coercePage_empty_types coerceRow_empty_types cong: sum.case_cong)
qed

lemma example_fetch:
  "fetchPage (exampleCollab rows fks) t limit offset = Inr (take limit (drop offset rows))"
  "countRows (exampleCollab rows fks) t = Inr (length rows)"
  "bulkInsert (exampleCollab rows fks) d t page =
     (if list_ex (\<lambda>r. objGet r ''id'' = JNull) page
      then Inl (if length page = 1 then RowRejected else BatchRejected)
      else Inr (fst d @ page, snd d))"
  by (simp_all add: exampleCollab_def)

text \<open>
  Claim C9 on the example table with an empty cache: the destination receives the two
  rows as they are, the empty strings included.
\<close>

theorem missing_meta_copies_verbatim_witness:
  "copyTableData 1 (exampleCollab [alice, blank] []) exampleBuiltins (exampleConfig False)
     Map.empty ''users'' ([], []) = Inr ([alice, blank], [])"
proof -
  have i: "insertPage (exampleCollab [alice, blank] []) (exampleConfig False) ''users'' [alice, blank] ([], [])
      = Inr ([alice, blank], [])"
    by (simp add: insertPage_def example_fetch alice_def blank_def objGet_def)
  have "Map.empty ''users'' = (None :: typesByCol option)" by simp
  with missing_meta_copies_verbatim[where cache = Map.empty and tbl = "''users''" and fuel = 1
      and X = "exampleCollab [alice, blank] []" and B = exampleBuiltins and cfg = "exampleConfig False"
      and d = "([], [])" and tot = 2 and offset = 0]
    missing_meta_copies_verbatim[where cache = Map.empty and tbl = "''users''" and fuel = 0
      and X = "exampleCollab [alice, blank] []" and B = exampleBuiltins and cfg = "exampleConfig False"
      and d = "([alice, blank], [])" and tot = 2 and offset = 2]
      i
  show ?thesis
    by (simp add: example_fetch exampleConfig_def numeral_2_eq_2)
qed

lemma rowByRow_append:
  "rowByRow X tbl (pre @ post) d =
     (case rowByRow X tbl pre d of Inl e \<Rightarrow> Inl e | Inr d1 \<Rightarrow> rowByRow X tbl post d1)"
  by (induction pre arbitrary: d) (auto split: sum.splits)

lemma rowByRow_first_failure:
  "rowByRow X tbl page d = Inl rowErr \<longleftrightarrow>
     (\<exists>pre r post d1. page = pre @ r # post \<and> rowByRow X tbl pre d = Inr d1 \<and>
        bulkInsert X d1 tbl [r] = Inl rowErr)"
proof
  show "rowByRow X tbl page d = Inl rowErr \<Longrightarrow>
     \<exists>pre r post d1. page = pre @ r # post \<and> rowByRow X tbl pre d = Inr d1 \<and>
        bulkInsert X d1 tbl [r] = Inl rowErr"
  proof (induction page arbitrary: d)
    case Nil
    then show ?case by simp
  next
    case (Cons r rs)
    show ?case
    proof (cases "bulkInsert X d tbl [r]")
      case (Inl e)
      with Cons.prems have "e = rowErr" by simp
      with Inl have "r # rs = [] @ r # rs \<and> rowByRow X tbl [] d = Inr d \<and>
          bulkInsert X d tbl [r] = Inl rowErr" by simp
      then show ?thesis by blast
    next
      case (Inr d')
      with Cons.prems have "rowByRow X tbl rs d' = Inl rowErr" by simp
      from Cons.IH[OF this] obtain pre x post d1 where
        "rs = pre @ x # post" "rowByRow X tbl pre d' = Inr d1" "bulkInsert X d1 tbl [x] = Inl rowErr"
        by blast
      with Inr have "r # rs = (r # pre) @ x # post \<and> rowByRow X tbl (r # pre) d = Inr d1 \<and>
          bulkInsert X d1 tbl [x] = Inl rowErr" by simp
      then show ?thesis by blast
    qed
  qed
next
  assume "\<exists>pre r post d1. page = pre @ r # post \<and> rowByRow X tbl pre d = Inr d1 \<and>
        bulkInsert X d1 tbl [r] = Inl rowErr"
  then show "rowByRow X tbl page d = Inl rowErr"
    by (auto simp: rowByRow_append)
qed

text \<open>
  Claim C1, as the code has it. When the bulk insert of a page fails with an error
  \<open>e\<close>, the copy never succeeds. With the fallback disabled it raises \<open>e\<close>. With the
  fallback enabled it inserts the rows of the page one at a time: if the insert of some
  row fails, the error of the first such row is raised (\<^verbatim>\<open>throw rowErr\<close>), and \<open>e\<close> is
  raised only when every row goes in on its own. The error of the page is the error
  that leaves the copy loop.
\<close>

theorem batch_failure_propagation:
  assumes "bulkInsert X d tbl page = Inl e"
  shows "(\<not> DEBUG_ON_ERROR cfg \<longrightarrow> insertPage X cfg tbl page d = Inl e)
    \<and> (DEBUG_ON_ERROR cfg \<longrightarrow>
         insertPage X cfg tbl page d =
           (case rowByRow X tbl page d of Inl rowErr \<Rightarrow> Inl rowErr | Inr d' \<Rightarrow> Inl e))
    \<and> (rowByRow X tbl page d = Inl rowErr \<longleftrightarrow>
         (\<exists>pre r post d1. page = pre @ r # post \<and> rowByRow X tbl pre d = Inr d1 \<and>
            bulkInsert X d1 tbl [r] = Inl rowErr))
    \<and> (\<exists>e'. insertPage X cfg tbl page d = Inl e')
    \<and> (offset < tot \<and> fetchPage X tbl (BATCH_SIZE cfg) offset = Inr rows \<and>
         page = coercePage B (TREAT_EMPTY_STRING_AS_NULL cfg) types rows \<longrightarrow>
         (\<exists>e'. insertPage X cfg tbl page d = Inl e' \<and>
            copyLoop (Suc fuel) X B cfg types tbl tot offset d = Inl (Raised e')))"
proof -
  have never: "\<exists>e'. insertPage X cfg tbl page d = Inl e'"
    using assms by (auto simp: insertPage_def split: sum.splits)
  then obtain e' where e': "insertPage X cfg tbl page d = Inl e'" ..
  have loop: "offset < tot \<and> fetchPage X tbl (BATCH_SIZE cfg) offset = Inr rows \<and>
         page = coercePage B (TREAT_EMPTY_STRING_AS_NULL cfg) types rows \<longrightarrow>
         (\<exists>e'. insertPage X cfg tbl page d = Inl e' \<and>
            copyLoop (Suc fuel) X B cfg types tbl tot offset d = Inl (Raised e'))"
    using e' by auto
  from assms never loop rowByRow_first_failure[of X tbl page d rowErr] show ?thesis
    by (simp add: insertPage_def)
qed

text \<open>
  Claim C1 as stated says that the error that propagates is the batch error in every
  case. In the example the page of two rows is rejected with the batch error, the
  fallback is enabled, the second row is rejected on its own, and the row's error is
  what the page insert and the whole copy raise.
\<close>

theorem batch_error_replaced_by_row_error:
  "bulkInsert (exampleCollab [alice, broken] []) ([], []) ''users''
       (coercePage exampleBuiltins True exampleTypes [alice, broken]) = Inl BatchRejected
   \<and> insertPage (exampleCollab [alice, broken] []) (exampleConfig True) ''users''
       (coercePage exampleBuiltins True exampleTypes [alice, broken]) ([], []) = Inl RowRejected
   \<and> copyTableData 1 (exampleCollab [alice, broken] []) exampleBuiltins (exampleConfig True)
       (Map.empty(''users'' \<mapsto> exampleTypes)) ''users'' ([], []) = Inl (Raised RowRejected)"
  by code_simp


text \<open>Claim C1 on the rejected page of the example with the fallback disabled.\<close>

theorem batch_failure_propagation_witness:
  "insertPage (exampleCollab [alice, broken] []) (exampleConfig False) ''users''
       (coercePage exampleBuiltins True exampleTypes [alice, broken]) ([], []) = Inl BatchRejected
   \<and> copyLoop 1 (exampleCollab [alice, broken] []) exampleBuiltins (exampleConfig False)
       exampleTypes ''users'' 2 0 ([], []) = Inl (Raised BatchRejected)"
proof -
  have h: "bulkInsert (exampleCollab [alice, broken] []) ([], []) ''users''
       (coercePage exampleBuiltins True exampleTypes [alice, broken]) = Inl BatchRejected"
    by code_simp
  have f: "fetchPage (exampleCollab [alice, broken] []) ''users'' (BATCH_SIZE (exampleConfig False)) 0
       = Inr [alice, broken]"
    by (simp add: example_fetch exampleConfig_def)
  have c: "\<not> DEBUG_ON_ERROR (exampleConfig False)" "TREAT_EMPTY_STRING_AS_NULL (exampleConfig False)"
    by (simp_all add: exampleConfig_def)
  from batch_failure_propagation[OF h, of "exampleConfig False" RowRejected 0 2 "[alice, broken]"
      exampleBuiltins exampleTypes 0] f c
  show ?thesis by auto
qed

section \<open>Properties of the Constraint Linker\<close>




















section \<open>Properties of the main control flow\<close>


lemma create_step:
  "createPgTableFromSqlite X t st = (r, st') \<Longrightarrow>
     (r \<noteq> None \<and> trace st' = trace st \<and> tableMeta st' = tableMeta st) \<or>
     (trace st' = trace st @ [MetaSet (name t)] \<and>
      (\<exists>m. tableMeta st' = (tableMeta st)(name t \<mapsto> m)))"
  by (auto simp: createPgTableFromSqlite_def Let_def split: sum.splits)

lemma copy_step:
  "copyStep fuel X B cfg t st = (r, st') \<Longrightarrow>
     tableMeta st' = tableMeta st \<and>
     trace st' = trace st @ [CopyBegin (name t) (tableMeta st (name t))]"
  by (auto simp: copyStep_def Let_def split: sum.splits)

lemma fk_step:
  "fkStep X t st = (r, st') \<Longrightarrow> tableMeta st' = tableMeta st \<and> trace st' = trace st"
  by (auto simp: fkStep_def split: sum.splits)




lemma create_loop:
  "forEach (createPgTableFromSqlite X) ts st = (r, st') \<Longrightarrow>
     \<exists>k \<le> length ts.
       trace st' = trace st @ map (\<lambda>t. MetaSet (name t)) (take k ts) \<and>
       (r = None \<longrightarrow> k = length ts) \<and>
       (\<forall>t \<in> set (take k ts). tableMeta st' (name t) \<noteq> None) \<and>
       (\<forall>n. tableMeta st n \<noteq> None \<longrightarrow> tableMeta st' n \<noteq> None)"
proof (induction ts arbitrary: st)
  case Nil
  then show ?case by simp
next
  case (Cons t ts)
  obtain r1 st1 where b: "createPgTableFromSqlite X t st = (r1, st1)"
    by (cases "createPgTableFromSqlite X t st")
  show ?case
  proof (cases r1)
    case (Some f)
    with b Cons.prems have res: "r = Some f" "st' = st1" by simp_all
    from create_step[OF b] show ?thesis
    proof
      assume "r1 \<noteq> None \<and> trace st1 = trace st \<and> tableMeta st1 = tableMeta st"
      with res have "0 \<le> length (t # ts) \<and>
          trace st' = trace st @ map (\<lambda>t. MetaSet (name t)) (take 0 (t # ts)) \<and>
          (r = None \<longrightarrow> 0 = length (t # ts)) \<and>
          (\<forall>u \<in> set (take 0 (t # ts)). tableMeta st' (name u) \<noteq> None) \<and>
          (\<forall>n. tableMeta st n \<noteq> None \<longrightarrow> tableMeta st' n \<noteq> None)"
        by simp
      then show ?thesis by blast
    next
      assume "trace st1 = trace st @ [MetaSet (name t)] \<and>
          (\<exists>m. tableMeta st1 = (tableMeta st)(name t \<mapsto> m))"
      with res have "1 \<le> length (t # ts) \<and>
          trace st' = trace st @ map (\<lambda>t. MetaSet (name t)) (take 1 (t # ts)) \<and>
          (r = None \<longrightarrow> 1 = length (t # ts)) \<and>
          (\<forall>u \<in> set (take 1 (t # ts)). tableMeta st' (name u) \<noteq> None) \<and>
          (\<forall>n. tableMeta st n \<noteq> None \<longrightarrow> tableMeta st' n \<noteq> None)"
        by auto
      then show ?thesis by blast
    qed
  next
    case None
    with b Cons.prems have rest: "forEach (createPgTableFromSqlite X) ts st1 = (r, st')" by simp
    from create_step[OF b] None have s1: "trace st1 = trace st @ [MetaSet (name t)]"
      and m1: "\<exists>m. tableMeta st1 = (tableMeta st)(name t \<mapsto> m)" by auto
    from Cons.IH[OF rest] obtain k where k: "k \<le> length ts"
      "trace st' = trace st1 @ map (\<lambda>t. MetaSet (name t)) (take k ts)"
      "r = None \<longrightarrow> k = length ts"
      "\<forall>t \<in> set (take k ts). tableMeta st' (name t) \<noteq> None"
      "\<forall>n. tableMeta st1 n \<noteq> None \<longrightarrow> tableMeta st' n \<noteq> None"
      by blast
    from m1 k(5) have keep: "tableMeta st' (name t) \<noteq> None"
      "\<forall>n. tableMeta st n \<noteq> None \<longrightarrow> tableMeta st' n \<noteq> None"
      by auto
    with k s1 have "Suc k \<le> length (t # ts) \<and>
          trace st' = trace st @ map (\<lambda>t. MetaSet (name t)) (take (Suc k) (t # ts)) \<and>
          (r = None \<longrightarrow> Suc k = length (t # ts)) \<and>
          (\<forall>u \<in> set (take (Suc k) (t # ts)). tableMeta st' (name u) \<noteq> None) \<and>
          (\<forall>n. tableMeta st n \<noteq> None \<longrightarrow> tableMeta st' n \<noteq> None)"
      by simp
    then show ?thesis by blast
  qed
qed

lemma copy_loop:
  "forEach (copyStep fuel X B cfg) ts st = (r, st') \<Longrightarrow>
     tableMeta st' = tableMeta st \<and>
     (\<exists>k \<le> length ts.
        trace st' = trace st @ map (\<lambda>t. CopyBegin (name t) (tableMeta st (name t))) (take k ts))"
proof (induction ts arbitrary: st)
  case Nil
  then show ?case by simp
next
  case (Cons t ts)
  obtain r1 st1 where b: "copyStep fuel X B cfg t st = (r1, st1)"
    by (cases "copyStep fuel X B cfg t st")
  note s = copy_step[OF b]
  show ?case
  proof (cases r1)
    case (Some f)
    with b Cons.prems have "st' = st1" by simp
    with s have "tableMeta st' = tableMeta st \<and> 1 \<le> length (t # ts) \<and>
        trace st' = trace st @ map (\<lambda>t. CopyBegin (name t) (tableMeta st (name t))) (take 1 (t # ts))"
      by simp
    then show ?thesis by blast
  next
    case None
    with b Cons.prems have "forEach (copyStep fuel X B cfg) ts st1 = (r, st')" by simp
    from Cons.IH[OF this] s obtain k where "tableMeta st' = tableMeta st" "k \<le> length ts"
      "trace st' = trace st1 @ map (\<lambda>t. CopyBegin (name t) (tableMeta st (name t))) (take k ts)"
      by auto
    with s have "tableMeta st' = tableMeta st \<and> Suc k \<le> length (t # ts) \<and>
        trace st' = trace st @ map (\<lambda>t. CopyBegin (name t) (tableMeta st (name t))) (take (Suc k) (t # ts))"
      by simp
    then show ?thesis by blast
  qed
qed

lemma fk_loop:
  "forEach (fkStep X) ts st = (r, st') \<Longrightarrow> tableMeta st' = tableMeta st \<and> trace st' = trace st"
proof (induction ts arbitrary: st)
  case Nil
  then show ?case by simp
next
  case (Cons t ts)
  obtain r1 st1 where b: "fkStep X t st = (r1, st1)" by (cases "fkStep X t st")
  with Cons fk_step[OF b] show ?case by (cases r1) auto
qed



lemma phased_start: "trace st = [] \<Longrightarrow> phased ts st"
  unfolding phased_def by (intro exI[of _ 0]) simp

lemma phased_created:
  assumes "forEach (createPgTableFromSqlite X) ts st1 = (r2, st2)" and "trace st1 = []"
  shows "phased ts st2"
proof -
  from create_loop[OF assms(1)] assms(2) obtain k where "k \<le> length ts"
    "trace st2 = map (\<lambda>t. MetaSet (name t)) (take k ts)"
    "\<forall>t \<in> set (take k ts). tableMeta st2 (name t) \<noteq> None"
    by auto
  then have "k \<le> length ts \<and> 0 \<le> length ts \<and>
        trace st2 = map (\<lambda>t. MetaSet (name t)) (take k ts)
                 @ map (\<lambda>t. CopyBegin (name t) (tableMeta st2 (name t))) (take 0 ts) \<and>
        (0 < (0::nat) \<longrightarrow> k = length ts) \<and>
        (\<forall>t \<in> set (take k ts). tableMeta st2 (name t) \<noteq> None)"
    by simp
  then show ?thesis unfolding phased_def by blast
qed

lemma phased_copied:
  assumes "forEach (createPgTableFromSqlite X) ts st1 = (None, st2)" and "trace st1 = []"
    and "forEach (copyStep fuel X B cfg) ts st2 = (r3, st3)"
  shows "phased ts st3"
proof -
  from create_loop[OF assms(1)] assms(2) have c: 
    "trace st2 = map (\<lambda>t. MetaSet (name t)) ts"
    "\<forall>t \<in> set ts. tableMeta st2 (name t) \<noteq> None"
    by auto
  from copy_loop[OF assms(3)] obtain j where j: "tableMeta st3 = tableMeta st2" "j \<le> length ts"
    "trace st3 = trace st2 @ map (\<lambda>t. CopyBegin (name t) (tableMeta st2 (name t))) (take j ts)"
    by blast
  with c have "length ts \<le> length ts \<and> j \<le> length ts \<and>
        trace st3 = map (\<lambda>t. MetaSet (name t)) (take (length ts) ts)
                 @ map (\<lambda>t. CopyBegin (name t) (tableMeta st3 (name t))) (take j ts) \<and>
        (0 < j \<longrightarrow> length ts = length ts) \<and>
        (\<forall>t \<in> set (take (length ts) ts). tableMeta st3 (name t) \<noteq> None)"
    by simp
  then show ?thesis unfolding phased_def by blast
qed

lemma phased_linked:
  assumes "phased ts st3" and "forEach (fkStep X) ts st3 = (r, st)"
  shows "phased ts st"
  using assms(1) fk_loop[OF assms(2)] unfolding phased_def by simp

lemma main_phased:
  assumes "main fuel X B cfg d = (r, st)"
  shows "\<exists>ts. phased ts st"
proof (cases "ensurePgSchema X d")
  case (Inl e)
  with assms have "trace st = []" by (auto simp: main_def)
  then show ?thesis by (blast intro: phased_start)
next
  case d0: (Inr d0)
  show ?thesis
  proof (cases "getSqliteTables X")
    case (Inl e)
    with assms d0 have "trace st = []" by (auto simp: main_def)
    then show ?thesis by (blast intro: phased_start)
  next
    case (Inr tablesAll)
    define ts where "ts = selectTables cfg tablesAll"
    define st1 where "st1 = \<lparr>tableMeta = Map.empty, pg = d0, trace = []\<rparr>"
    have t1: "trace st1 = []" by (simp add: st1_def)
    show ?thesis
    proof (cases "length ts = 0")
      case True
      with assms d0 Inr have "trace st = []" by (auto simp: main_def ts_def)
      then show ?thesis by (blast intro: phased_start)
    next
      case False
      obtain r2 st2 where cr: "forEach (createPgTableFromSqlite X) ts st1 = (r2, st2)"
        by (cases "forEach (createPgTableFromSqlite X) ts st1")
      show ?thesis
      proof (cases r2)
        case (Some f)
        with assms d0 Inr False cr have "st = st2"
          by (simp add: main_def ts_def[symmetric] st1_def[symmetric] Let_def)
        with phased_created[OF cr t1] show ?thesis by blast
      next
        case None
        obtain r3 st3 where cp: "forEach (copyStep fuel X B cfg) ts st2 = (r3, st3)"
          by (cases "forEach (copyStep fuel X B cfg) ts st2")
        from cr None have cr': "forEach (createPgTableFromSqlite X) ts st1 = (None, st2)" by simp
        note p3 = phased_copied[OF cr' t1 cp]
        show ?thesis
        proof (cases r3)
          case (Some f)
          with assms d0 Inr False cr' cp have "st = st3"
            by (simp add: main_def ts_def[symmetric] st1_def[symmetric] Let_def)
          with p3 show ?thesis by blast
        next
          case n3: None
          show ?thesis
          proof (cases "ADD_FOREIGN_KEYS cfg")
            case True
            with assms d0 Inr False cr' cp n3 have "forEach (fkStep X) ts st3 = (r, st)"
              by (simp add: main_def ts_def[symmetric] st1_def[symmetric] Let_def)
            from phased_linked[OF p3 this] show ?thesis by blast
          next
            case nofk: False
            with assms d0 Inr False cr' cp n3 have "st = st3"
              by (simp add: main_def ts_def[symmetric] st1_def[symmetric] Let_def)
            with p3 show ?thesis by blast
          qed
        qed
      qed
    qed
  qed
qed



lemma forEach_invariant:
  assumes step: "\<And>x s r s'. body x s = (r, s') \<Longrightarrow> P s \<Longrightarrow> P s'"
  shows "forEach body xs st = (r, st') \<Longrightarrow> P st \<Longrightarrow> P st'"
proof (induction xs arbitrary: st)
  case Nil
  then show ?case by simp
next
  case (Cons x xs)
  obtain r1 st1 where b: "body x st = (r1, st1)" by (cases "body x st")
  from step[OF b Cons.prems(2)] have p1: "P st1" .
  show ?case
  proof (cases r1)
    case None
    with b Cons.prems(1) have "forEach body xs st1 = (r, st')" by simp
    from Cons.IH[OF this p1] show ?thesis .
  next
    case (Some f)
    with b Cons.prems(1) have "st' = st1" by simp
    with p1 show ?thesis by simp
  qed
qed

lemma create_readBack:
  assumes "createPgTableFromSqlite X t st = (r, st')" and "readBack X (tableMeta st)"
  shows "readBack X (tableMeta st')"
proof -
  have "tableMeta st' = tableMeta st \<or>
      (\<exists>d desc. describeTable X d (name t) = Inr desc \<and>
         tableMeta st' = (tableMeta st)(name t \<mapsto> classifyDesc desc))"
  proof (cases "getSqliteColumns X (name t)")
    case (Inl e)
    with assms(1) show ?thesis by (simp add: createPgTableFromSqlite_def)
  next
    case cols: (Inr columns)
    show ?thesis
    proof (cases "syncModel X (pg st) (name t) (map columnAttr columns)")
      case (Inl e)
      with assms(1) cols show ?thesis by (simp add: createPgTableFromSqlite_def)
    next
      case sync: (Inr d1)
      show ?thesis
      proof (cases "describeTable X d1 (name t)")
        case (Inl e)
        with assms(1) cols sync show ?thesis by (auto simp: createPgTableFromSqlite_def)
      next
        case (Inr desc)
        with assms(1) cols sync
        have "tableMeta st' = (tableMeta st)(name t \<mapsto> classifyDesc desc)"
          by (auto simp: createPgTableFromSqlite_def Let_def split: sum.splits)
        with Inr show ?thesis by blast
      qed
    qed
  qed
  then show ?thesis
  proof
    assume "tableMeta st' = tableMeta st"
    with assms(2) show ?thesis by simp
  next
    assume "\<exists>d desc. describeTable X d (name t) = Inr desc \<and>
         tableMeta st' = (tableMeta st)(name t \<mapsto> classifyDesc desc)"
    then obtain d desc where d: "describeTable X d (name t) = Inr desc"
      and m: "tableMeta st' = (tableMeta st)(name t \<mapsto> classifyDesc desc)" by blast
    show ?thesis
      unfolding readBack_def
    proof (intro allI impI)
      fix n types
      assume e: "tableMeta st' n = Some types"
      show "\<exists>d desc. describeTable X d n = Inr desc \<and> types = classifyDesc desc"
      proof (cases "n = name t")
        case True
        with e m have "types = classifyDesc desc" by simp
        with d True show ?thesis by blast
      next
        case False
        with e m have "tableMeta st n = Some types" by simp
        with assms(2) show ?thesis unfolding readBack_def by blast
      qed
    qed
  qed
qed

lemma main_readBack:
  assumes "main fuel X B cfg d = (r, st)"
  shows "readBack X (tableMeta st)"
proof -
  have start: "readBack X Map.empty" by (simp add: readBack_def)
  have create: "readBack X (tableMeta s')"
    if "forEach (createPgTableFromSqlite X) ts s = (q, s')" "readBack X (tableMeta s)" for ts s q s'
    using forEach_invariant[where P = "\<lambda>s. readBack X (tableMeta s)"
        and body = "createPgTableFromSqlite X", OF create_readBack that] .
  have copy: "tableMeta s' = tableMeta s"
    if "forEach (copyStep fuel X B cfg) ts s = (q, s')" for ts s q s'
    using copy_loop[OF that] by simp
  have link: "tableMeta s' = tableMeta s"
    if "forEach (fkStep X) ts s = (q, s')" for ts s q s'
    using fk_loop[OF that] by simp
  show ?thesis
  proof (cases "ensurePgSchema X d")
    case (Inl e)
    with assms start show ?thesis by (auto simp: main_def)
  next
    case d0: (Inr d0)
    show ?thesis
    proof (cases "getSqliteTables X")
      case (Inl e)
      with assms d0 start show ?thesis by (auto simp: main_def)
    next
      case (Inr tablesAll)
      define ts where "ts = selectTables cfg tablesAll"
      define st1 where "st1 = \<lparr>tableMeta = Map.empty, pg = d0, trace = []\<rparr>"
      have r1: "readBack X (tableMeta st1)" using start by (simp add: st1_def)
      show ?thesis
      proof (cases "length ts = 0")
        case True
        with assms d0 Inr start show ?thesis by (auto simp: main_def ts_def)
      next
        case False
        obtain r2 st2 where cr: "forEach (createPgTableFromSqlite X) ts st1 = (r2, st2)"
          by (cases "forEach (createPgTableFromSqlite X) ts st1")
        note r2 = create[OF cr r1]
        obtain r3 st3 where cp: "forEach (copyStep fuel X B cfg) ts st2 = (r3, st3)"
          by (cases "forEach (copyStep fuel X B cfg) ts st2")
        from copy[OF cp] r2 have r3: "readBack X (tableMeta st3)" by simp
        obtain r4 st4 where fk: "forEach (fkStep X) ts st3 = (r4, st4)"
          by (cases "forEach (fkStep X) ts st3")
        from link[OF fk] r3 have r4: "readBack X (tableMeta st4)" by simp
        from assms d0 Inr False cr cp fk have "st = st2 \<or> st = st3 \<or> st = st4"
          by (auto simp: main_def ts_def[symmetric] st1_def[symmetric] Let_def
              split: option.splits if_splits)
        with r2 r3 r4 show ?thesis by blast
      qed
    qed
  qed
qed

lemma phased_split:
  assumes "phased ts st" and "trace st = pre @ CopyBegin n m # post"
  shows "(\<exists>types. m = Some types \<and> tableMeta st n = Some types)
    \<and> MetaSet n \<in> set pre
    \<and> (\<forall>n'. MetaSet n' \<notin> set post)
    \<and> (\<forall>n' m'. CopyBegin n' m' \<in> set (trace st) \<longrightarrow> MetaSet n' \<in> set pre)"
proof -
  from assms(1) obtain k j where kj: "k \<le> length ts" "j \<le> length ts"
    and tr: "trace st = map (\<lambda>t. MetaSet (name t)) (take k ts)
                 @ map (\<lambda>t. CopyBegin (name t) (tableMeta st (name t))) (take j ts)"
    and full: "0 < j \<longrightarrow> k = length ts"
    and meta: "\<forall>t \<in> set (take k ts). tableMeta st (name t) \<noteq> None"
    unfolding phased_def by blast
  let ?A = "map (\<lambda>t. MetaSet (name t)) (take k ts)"
  let ?C = "map (\<lambda>t. CopyBegin (name t) (tableMeta st (name t))) (take j ts)"
  have notA: "CopyBegin a b \<notin> set ?A" for a b by auto
  have notC: "MetaSet a \<notin> set ?C" for a by auto
  from assms(2) tr have eq: "pre @ CopyBegin n m # post = ?A @ ?C" by simp
  then obtain us where us: "(pre = ?A @ us \<and> us @ CopyBegin n m # post = ?C) \<or>
      (pre @ us = ?A \<and> CopyBegin n m # post = us @ ?C)"
    by (auto simp: append_eq_append_conv2)
  have split: "\<exists>vs. pre = ?A @ vs \<and> ?C = vs @ CopyBegin n m # post"
  proof (cases "pre = ?A @ us \<and> us @ CopyBegin n m # post = ?C")
    case True
    then show ?thesis by auto
  next
    case False
    with us have b: "pre @ us = ?A" "CopyBegin n m # post = us @ ?C" by auto
    show ?thesis
    proof (cases us)
      case Nil
      with b show ?thesis by auto
    next
      case (Cons u us')
      with b(2) have "u = CopyBegin n m" by simp
      with Cons b(1) have "CopyBegin n m \<in> set ?A"
        by (metis in_set_conv_decomp)
      with notA show ?thesis by blast
    qed
  qed
  then obtain vs where pre: "pre = ?A @ vs" and C: "?C = vs @ CopyBegin n m # post" by blast
  from C have inC: "CopyBegin n m \<in> set ?C" by simp
  have "take j ts \<noteq> []"
  proof
    assume "take j ts = []"
    then have "?C = []" by simp
    with inC show False by simp
  qed
  then have "0 < j" by (cases j) auto
  with full have k: "k = length ts" by simp
  have copied: "MetaSet a \<in> set pre \<and> (\<exists>types. b = Some types \<and> tableMeta st a = Some types)"
    if "CopyBegin a b \<in> set ?C" for a b
  proof -
    from that obtain t where t: "t \<in> set (take j ts)" "a = name t" "b = tableMeta st (name t)"
      by auto
    from t(1) have "t \<in> set ts" by (rule in_set_takeD)
    with k meta t have "tableMeta st a \<noteq> None" "MetaSet a \<in> set ?A" by auto
    with t pre show ?thesis by auto
  qed
  have post: "\<forall>n'. MetaSet n' \<notin> set post"
  proof
    fix n'
    from C have "set post \<subseteq> set ?C" by (metis set_subset_Cons set_append Un_upper2 subset_trans)
    with notC[of n'] show "MetaSet n' \<notin> set post" by blast
  qed
  have all: "\<forall>n' m'. CopyBegin n' m' \<in> set (trace st) \<longrightarrow> MetaSet n' \<in> set pre"
  proof (intro allI impI)
    fix n' m'
    assume "CopyBegin n' m' \<in> set (trace st)"
    with tr notA[of n' m'] have "CopyBegin n' m' \<in> set ?C" by auto
    from copied[OF this] show "MetaSet n' \<in> set pre" by blast
  qed
  from copied[OF inC] post all show ?thesis by blast
qed

text \<open>
  Claim C5. In any run of \<^verbatim>\<open>main\<close>, whether it completes, fails or is cut off inside a
  copy loop, take any call of \<^verbatim>\<open>copyTableData\<close>: the cache holds an entry for that table
  when the call is made (the classification of a description that \<^verbatim>\<open>describeTable\<close>
  returned for the table, which the cache still holds at the end of the run), the \<^verbatim>\<open>tableMeta.set\<close> for that table comes earlier
  in the run, no \<^verbatim>\<open>tableMeta.set\<close> comes later, and every table that is ever copied had
  its entry stored before this call: the creation and classification of every table
  is over before the first copy begins.
\<close>

theorem cache_populated_before_copy:
  assumes "main fuel X B cfg d = (r, st)" and "trace st = pre @ CopyBegin n m # post"
  shows "(\<exists>types. m = Some types \<and> tableMeta st n = Some types
            \<and> (\<exists>d1 desc. describeTable X d1 n = Inr desc \<and> types = classifyDesc desc))
    \<and> MetaSet n \<in> set pre
    \<and> (\<forall>n'. MetaSet n' \<notin> set post)
    \<and> (\<forall>n' m'. CopyBegin n' m' \<in> set (trace st) \<longrightarrow> MetaSet n' \<in> set pre)"
proof -
  from main_phased[OF assms(1)] obtain ts where "phased ts st" ..
  from phased_split[OF this assms(2)] have s:
    "\<exists>types. m = Some types \<and> tableMeta st n = Some types"
    "MetaSet n \<in> set pre" "\<forall>n'. MetaSet n' \<notin> set post"
    "\<forall>n' m'. CopyBegin n' m' \<in> set (trace st) \<longrightarrow> MetaSet n' \<in> set pre"
    by blast+
  from s(1) obtain types where t: "m = Some types" "tableMeta st n = Some types" by blast
  from main_readBack[OF assms(1)] t(2)
  have "\<exists>d1 desc. describeTable X d1 n = Inr desc \<and> types = classifyDesc desc"
    unfolding readBack_def by blast
  with t have "\<exists>types. m = Some types \<and> tableMeta st n = Some types
            \<and> (\<exists>d1 desc. describeTable X d1 n = Inr desc \<and> types = classifyDesc desc)"
    by blast
  with s(2,3,4) show ?thesis by (intro conjI)
qed

text \<open>Claim C5 on the run of the example migration.\<close>

theorem cache_populated_before_copy_witness:
  "trace (snd (main 1 (exampleCollab [alice, blank] []) exampleBuiltins (exampleConfig False) ([], [])))
     = [MetaSet ''users'', CopyBegin ''users'' (Some exampleTypes)]
   \<and> tableMeta (snd (main 1 (exampleCollab [alice, blank] []) exampleBuiltins (exampleConfig False) ([], [])))
       ''users'' = Some exampleTypes"
proof -
  let ?run = "main 1 (exampleCollab [alice, blank] []) exampleBuiltins (exampleConfig False) ([], [])"
  have t: "trace (snd ?run) = [MetaSet ''users''] @ CopyBegin ''users'' (Some exampleTypes) # []"
    by code_simp
  have m: "?run = (fst ?run, snd ?run)" by simp
  from cache_populated_before_copy[OF m t] t show ?thesis by simp
qed


end
